theory Spec2Isabelle
  imports Complex_Main
begin


section \<open>Numbers, tensors and exceptions\<close>

text \<open>
  The program computes with IEEE floating-point numbers (torch \<^verbatim>\<open>float32\<close>, numpy
  \<^verbatim>\<open>float64\<close>). A value is a finite number, one of the two infinities, or NaN. Sums,
  products and quotients of finite numbers are exact here: their rounding, the overflow of
  finite results and the sign of zero are not modelled (a zero divisor stands for
  \<^verbatim>\<open>+0.0\<close>, which is what both divisions of the program can meet: a maximum of
  magnitudes, and \<^verbatim>\<open>1 + x**n\<close>). The result of \<^verbatim>\<open>torch.tanh\<close> is rounded to
  \<^verbatim>\<open>float32\<close>. The special values follow IEEE 754, which is what torch and numpy do: no
  arithmetic operation raises.
\<close>

datatype fl = Fin real | PInf | NInf | NaN

text \<open>
  The exceptions the interpreter and the libraries raise in this program; \<open>LibraryError\<close>
  stands for the exception classes of the libraries' own.
\<close>

datatype exn = IndexError | ValueError | RuntimeError | LibraryError

fun is_fin :: "fl \<Rightarrow> bool" where
  "is_fin (Fin a) = True"
| "is_fin x = False"

text \<open>The infinity with the sign of \<open>a\<close>; NaN for zero (\<^verbatim>\<open>0 * inf\<close>, \<^verbatim>\<open>0 / 0\<close>).\<close>

definition inf_of :: "real \<Rightarrow> fl" where
  "inf_of a = (if a = 0 then NaN else if 0 < a then PInf else NInf)"

fun fneg :: "fl \<Rightarrow> fl" where
  "fneg (Fin a) = Fin (- a)"
| "fneg PInf = NInf"
| "fneg NInf = PInf"
| "fneg NaN = NaN"

fun fadd :: "fl \<Rightarrow> fl \<Rightarrow> fl" where
  "fadd NaN y = NaN"
| "fadd x NaN = NaN"
| "fadd (Fin a) (Fin b) = Fin (a + b)"
| "fadd PInf NInf = NaN"
| "fadd NInf PInf = NaN"
| "fadd PInf y = PInf"
| "fadd x PInf = PInf"
| "fadd NInf y = NInf"
| "fadd x NInf = NInf"

definition fsub :: "fl \<Rightarrow> fl \<Rightarrow> fl" where
  "fsub x y = fadd x (fneg y)"

fun fmul :: "fl \<Rightarrow> fl \<Rightarrow> fl" where
  "fmul NaN y = NaN"
| "fmul x NaN = NaN"
| "fmul (Fin a) (Fin b) = Fin (a * b)"
| "fmul (Fin a) PInf = inf_of a"
| "fmul (Fin a) NInf = inf_of (- a)"
| "fmul PInf (Fin b) = inf_of b"
| "fmul NInf (Fin b) = inf_of (- b)"
| "fmul PInf PInf = PInf"
| "fmul PInf NInf = NInf"
| "fmul NInf PInf = NInf"
| "fmul NInf NInf = PInf"

fun fdiv :: "fl \<Rightarrow> fl \<Rightarrow> fl" where
  "fdiv NaN y = NaN"
| "fdiv x NaN = NaN"
| "fdiv (Fin a) (Fin b) = (if b = 0 then inf_of a else Fin (a / b))"
| "fdiv (Fin a) y = Fin 0"
| "fdiv PInf (Fin b) = (if 0 \<le> b then PInf else NInf)"
| "fdiv NInf (Fin b) = (if 0 \<le> b then NInf else PInf)"
| "fdiv x y = NaN"

primrec fpown :: "fl \<Rightarrow> nat \<Rightarrow> fl" where
  "fpown x 0 = Fin 1"
| "fpown x (Suc k) = fmul x (fpown x k)"

text \<open>\<^verbatim>\<open>x ** n\<close> for a float \<open>x\<close> and a Python integer \<open>n\<close>.\<close>

definition fpow :: "fl \<Rightarrow> int \<Rightarrow> fl" where
  "fpow x n = (if 0 \<le> n then fpown x (nat n) else fdiv (Fin 1) (fpown x (nat (- n))))"

text \<open>
  Rounding to \<^verbatim>\<open>float32\<close>, for numbers of magnitude at most one (the range of \<open>tanh\<close>;
  there is no overflow there). \<open>rne\<close> rounds to the nearest integer, a tie to the even one.
  Around \<open>y\<close> with \<open>2^e \<le> |y| < 2^(e+1)\<close> the numbers with a significand of 24 bits are
  \<open>2^(e-23)\<close> apart, and \<open>2^(-149)\<close> apart below the smallest normal number \<open>2^(-126)\<close>.
\<close>

definition rne :: "real \<Rightarrow> int" where
  "rne x = (let f = \<lfloor>x\<rfloor>; d = x - of_int f in
            if d < 1 / 2 then f else if 1 / 2 < d then f + 1 else if even f then f else f + 1)"

definition f32_ulp :: "real \<Rightarrow> real" where
  "f32_ulp y = (let e = max \<lfloor>log 2 \<bar>y\<bar>\<rfloor> (- 126) in
                if 23 \<le> e then 2 ^ nat (e - 23) else 1 / 2 ^ nat (23 - e))"

definition round32 :: "real \<Rightarrow> real" where
  "round32 y = (if y = 0 then 0 else f32_ulp y * of_int (rne (y / f32_ulp y)))"

text \<open>\<^verbatim>\<open>torch.tanh\<close> on a \<^verbatim>\<open>float32\<close> tensor: the hyperbolic tangent, rounded.\<close>

fun ftanh :: "fl \<Rightarrow> fl" where
  "ftanh (Fin a) = Fin (round32 (tanh a))"
| "ftanh PInf = Fin 1"
| "ftanh NInf = Fin (- 1)"
| "ftanh NaN = NaN"

text \<open>A one-dimensional tensor is a list, a two-dimensional one the list of its rows.\<close>

type_synonym vec = "fl list"
type_synonym mat = "fl list list"

definition dot :: "vec \<Rightarrow> vec \<Rightarrow> fl" where
  "dot r v = foldl fadd (Fin 0) (map2 fmul r v)"

text \<open>
  \<^verbatim>\<open>M @ v\<close> for a matrix and a vector: torch raises a RuntimeError unless the number of
  columns is the length of the vector. (A matrix without rows has no column count in this
  representation; the constructor cannot build a network with such matrices, as \<^verbatim>\<open>max\<close>
  fails on its empty list of eigenvalues.)
\<close>

definition matvec :: "mat \<Rightarrow> vec \<Rightarrow> exn + vec" where
  "matvec M v = (if \<forall>r \<in> set M. length r = length v
                 then Inr (map (\<lambda>r. dot r v) M) else Inl RuntimeError)"

text \<open>
  \<^verbatim>\<open>a + b\<close> for two vectors: elementwise when the lengths agree; a vector of length one
  is broadcast; any other pair of lengths is a RuntimeError.
\<close>

definition tadd :: "vec \<Rightarrow> vec \<Rightarrow> exn + vec" where
  "tadd a b =
     (if length a = length b then Inr (map2 fadd a b)
      else if length a = 1 then Inr (map (fadd (hd a)) b)
      else if length b = 1 then Inr (map (\<lambda>x. fadd x (hd b)) a)
      else Inl RuntimeError)"

text \<open>The builtin \<^verbatim>\<open>max\<close> over a sequence: a ValueError on the empty one.\<close>

fun py_max :: "real list \<Rightarrow> exn + real" where
  "py_max [] = Inl ValueError"
| "py_max (x # xs) = Inr (foldl (\<lambda>m y. if m < y then y else m) x xs)"


section \<open>The libraries\<close>

text \<open>
  The numerical routines the program calls are not part of it, and are parameters of the
  model: torch's random generator (a state \<open>'g\<close>, reset by \<^verbatim>\<open>torch.manual_seed\<close> and
  advanced by every \<^verbatim>\<open>torch.rand\<close>, which draws finite numbers), \<^verbatim>\<open>torch.linalg.eig\<close>
  (the eigenvalues), scikit-learn's \<^verbatim>\<open>Ridge\<close> (\<open>ridge_fit\<close> is given the regularisation strength,
  the samples and the targets, nothing else, and solves from scratch; \<open>'p\<close> are the fitted
  coefficients) and \<^verbatim>\<open>mean_squared_error\<close>. Each may raise.
\<close>

record ('g, 'p) lib =
  manual_seed :: "nat \<Rightarrow> 'g"
  torch_rand :: "'g \<Rightarrow> nat \<Rightarrow> nat \<Rightarrow> real list list \<times> 'g"
  linalg_eig :: "mat \<Rightarrow> exn + complex list"
  ridge_fit :: "real \<Rightarrow> mat \<Rightarrow> vec \<Rightarrow> exn + 'p"
  ridge_predict :: "'p \<Rightarrow> mat \<Rightarrow> exn + vec"
  mean_squared_error :: "vec \<Rightarrow> vec \<Rightarrow> exn + fl"


section \<open>The echo state network\<close>

text \<open>The \<^verbatim>\<open>Ridge\<close> object: its regularisation strength and, once fitted, its coefficients.\<close>

record 'p ridge =
  ridge_alpha :: real
  fitted :: "'p option"

record 'p esn =
  input_dim :: nat
  reservoir_size :: nat
  output_dim :: nat
  spectral_radius :: real
  alpha :: real
  Win :: mat
  W :: mat
  readout :: "'p ridge"

text \<open>\<^verbatim>\<open>readout.fit(X, y)\<close> and \<^verbatim>\<open>readout.predict(X)\<close>.\<close>

definition Ridge_fit :: "('g, 'p) lib \<Rightarrow> 'p ridge \<Rightarrow> mat \<Rightarrow> vec \<Rightarrow> exn + 'p ridge" where
  "Ridge_fit L r X y =
     (case ridge_fit L (ridge_alpha r) X y of
        Inl e \<Rightarrow> Inl e
      | Inr p \<Rightarrow> Inr (r\<lparr>fitted := Some p\<rparr>))"

definition Ridge_predict :: "('g, 'p) lib \<Rightarrow> 'p ridge \<Rightarrow> mat \<Rightarrow> exn + vec" where
  "Ridge_predict L r X =
     (case fitted r of
        None \<Rightarrow> Inl LibraryError
      | Some p \<Rightarrow> ridge_predict L p X)"

text \<open>\<^verbatim>\<open>torch.rand(shape) * 2 - 1\<close>.\<close>

definition uniform_pm1 :: "real list list \<Rightarrow> real list list" where
  "uniform_pm1 A = map (map (\<lambda>x. x * 2 - 1)) A"

definition fin_mat :: "real list list \<Rightarrow> mat" where
  "fin_mat A = map (map Fin) A"

text \<open>
  \<^verbatim>\<open>adjust_spectral_radius\<close>: the eigenvalues of \<open>W\<close>, the largest of their magnitudes, and
  the in-place product of \<open>W\<close> with \<^verbatim>\<open>spectral_radius / rhoW\<close>. The quotient is a float
  division by a tensor: it does not raise on zero.
\<close>

definition adjust_spectral_radius :: "('g, 'p) lib \<Rightarrow> 'q esn \<Rightarrow> exn + 'q esn" where
  "adjust_spectral_radius L net =
     (case linalg_eig L (W net) of
        Inl e \<Rightarrow> Inl e
      | Inr eigenvalues \<Rightarrow>
          (case py_max (map cmod eigenvalues) of
             Inl e \<Rightarrow> Inl e
           | Inr rhoW \<Rightarrow>
               Inr (net\<lparr>W := map (map (\<lambda>w. fmul w (fdiv (Fin (spectral_radius net)) (Fin rhoW))))
                              (W net)\<rparr>)))"

text \<open>
  \<^verbatim>\<open>initialize_weights\<close>: two draws from the generator, \<open>Win\<close> first, then the rescaling.
  When the rescaling raises, the object keeps the two draws; the model returns the error
  alone.
\<close>

definition initialize_weights :: "('g, 'p) lib \<Rightarrow> 'q esn \<Rightarrow> 'g \<Rightarrow> exn + ('q esn \<times> 'g)" where
  "initialize_weights L net g =
     (case torch_rand L g (reservoir_size net) (input_dim net) of
        (A, g1) \<Rightarrow>
          (case torch_rand L g1 (reservoir_size net) (reservoir_size net) of
             (B, g2) \<Rightarrow>
               (case adjust_spectral_radius L
                       (net\<lparr>Win := fin_mat (uniform_pm1 A), W := fin_mat (uniform_pm1 B)\<rparr>) of
                  Inl e \<Rightarrow> Inl e
                | Inr net' \<Rightarrow> Inr (net', g2))))"

text \<open>
  The constructor: the fields, \<^verbatim>\<open>initialize_weights\<close>, then the readout. Until the last
  assignment the object has no readout; the placeholder is never read.
\<close>

definition EchoStateNetwork ::
  "('g, 'p) lib \<Rightarrow> nat \<Rightarrow> nat \<Rightarrow> nat \<Rightarrow> real \<Rightarrow> real \<Rightarrow> 'g \<Rightarrow> exn + ('p esn \<times> 'g)" where
  "EchoStateNetwork L d n out sr a g =
     (case initialize_weights L
             \<lparr>input_dim = d, reservoir_size = n, output_dim = out, spectral_radius = sr,
              alpha = a, Win = [], W = [], readout = \<lparr>ridge_alpha = a, fitted = None\<rparr>\<rparr> g of
        Inl e \<Rightarrow> Inl e
      | Inr (net, g') \<Rightarrow> Inr (net\<lparr>readout := \<lparr>ridge_alpha = alpha net, fitted = None\<rparr>\<rparr>, g'))"

text \<open>
  The body of the loop of \<^verbatim>\<open>train\<close>:
  \<^verbatim>\<open>state = torch.tanh(self.Win @ u + self.W @ state)\<close> with \<^verbatim>\<open>u = [train_data[t]]\<close>.
\<close>

definition train_step :: "'p esn \<Rightarrow> fl \<Rightarrow> vec \<Rightarrow> exn + vec" where
  "train_step net x state =
     (case matvec (Win net) [x] of
        Inl e \<Rightarrow> Inl e
      | Inr a \<Rightarrow>
          (case matvec (W net) state of
             Inl e \<Rightarrow> Inl e
           | Inr b \<Rightarrow>
               (case tadd a b of
                  Inl e \<Rightarrow> Inl e
                | Inr c \<Rightarrow> Inr (map ftanh c))))"

text \<open>The loop over the input, carrying the state and the list of states.\<close>

fun train_loop :: "'p esn \<Rightarrow> vec \<Rightarrow> vec \<Rightarrow> vec list \<Rightarrow> exn + vec list" where
  "train_loop net [] state states = Inr states"
| "train_loop net (x # xs) state states =
     (case train_step net x state of
        Inl e \<Rightarrow> Inl e
      | Inr s \<Rightarrow> train_loop net xs s (states @ [s]))"

definition train_states :: "'p esn \<Rightarrow> vec \<Rightarrow> exn + vec list" where
  "train_states net train_data =
     train_loop net train_data (replicate (reservoir_size net) (Fin 0)) []"

definition train :: "('g, 'p) lib \<Rightarrow> 'p esn \<Rightarrow> vec \<Rightarrow> vec \<Rightarrow> exn + ('p esn \<times> vec)" where
  "train L net train_data target_data =
     (case train_states net train_data of
        Inl e \<Rightarrow> Inl e
      | Inr states \<Rightarrow>
          (case Ridge_fit L (readout net) states target_data of
             Inl e \<Rightarrow> Inl e
           | Inr r \<Rightarrow>
               (case Ridge_predict L r states of
                  Inl e \<Rightarrow> Inl e
                | Inr predictions \<Rightarrow> Inr (net\<lparr>readout := r\<rparr>, predictions))))"


section \<open>The trial runner\<close>

text \<open>
  One iteration of the loop of \<^verbatim>\<open>train_esn\<close>: seed, \<^verbatim>\<open>initialize_weights\<close>, \<^verbatim>\<open>train\<close> on the
  training data, \<^verbatim>\<open>train\<close> on the test data. The printed line is not modelled, nor is
  numpy's generator, which the loop seeds and the program never draws from.
\<close>

definition trial ::
  "('g, 'p) lib \<Rightarrow> vec \<Rightarrow> vec \<Rightarrow> vec \<Rightarrow> vec \<Rightarrow> nat \<Rightarrow> 'p esn \<Rightarrow> exn + ('p esn \<times> 'g \<times> fl \<times> fl)" where
  "trial L train_data target_data test_data test_target i model =
     (case initialize_weights L model (manual_seed L i) of
        Inl e \<Rightarrow> Inl e
      | Inr (m1, g) \<Rightarrow>
          (case train L m1 train_data target_data of
             Inl e \<Rightarrow> Inl e
           | Inr (m2, predictions) \<Rightarrow>
               (case mean_squared_error L target_data predictions of
                  Inl e \<Rightarrow> Inl e
                | Inr mse \<Rightarrow>
                    (case train L m2 test_data test_target of
                       Inl e \<Rightarrow> Inl e
                     | Inr (m3, test_predictions) \<Rightarrow>
                         (case mean_squared_error L test_target test_predictions of
                            Inl e \<Rightarrow> Inl e
                          | Inr test_mse \<Rightarrow> Inr (m3, g, mse, test_mse))))))"

fun trials ::
  "('g, 'p) lib \<Rightarrow> vec \<Rightarrow> vec \<Rightarrow> vec \<Rightarrow> vec \<Rightarrow> nat list \<Rightarrow> 'p esn \<Rightarrow> 'g \<Rightarrow> fl list \<Rightarrow> fl list
     \<Rightarrow> exn + ('p esn \<times> 'g \<times> fl list \<times> fl list)" where
  "trials L train_data target_data test_data test_target [] model g results test_results =
     Inr (model, g, results, test_results)"
| "trials L train_data target_data test_data test_target (i # is) model g results test_results =
     (case trial L train_data target_data test_data test_target i model of
        Inl e \<Rightarrow> Inl e
      | Inr (model', g', mse, test_mse) \<Rightarrow>
          trials L train_data target_data test_data test_target is model' g'
            (results @ [mse]) (test_results @ [test_mse]))"

text \<open>
  \<^verbatim>\<open>train_esn\<close>. Besides the two lists it returns, the call leaves the model and the
  generator changed; both are part of the result here.
\<close>

definition train_esn ::
  "('g, 'p) lib \<Rightarrow> 'p esn \<Rightarrow> 'g \<Rightarrow> vec \<Rightarrow> vec \<Rightarrow> vec \<Rightarrow> vec \<Rightarrow> nat
     \<Rightarrow> exn + ('p esn \<times> 'g \<times> fl list \<times> fl list)" where
  "train_esn L model g train_data target_data test_data test_target num_trials =
     trials L train_data target_data test_data test_target [0..<num_trials] model g [] []"


section \<open>The Mackey-Glass generator\<close>

text \<open>The right-hand side of the delayed update, in the order the expression is evaluated.\<close>

definition mg_next :: "int \<Rightarrow> fl \<Rightarrow> fl \<Rightarrow> fl \<Rightarrow> fl \<Rightarrow> fl" where
  "mg_next n beta gamma prev del =
     fsub (fadd prev (fdiv (fmul beta del) (fadd (Fin 1) (fpow del n)))) (fmul gamma prev)"

text \<open>
  The loop over \<^verbatim>\<open>range(1, T)\<close>. In the first branch \<open>t - tau\<close> is not negative, so the
  read \<^verbatim>\<open>x[t - tau]\<close> is an IndexError exactly when it is past the end.
\<close>

fun mg_loop :: "int \<Rightarrow> int \<Rightarrow> fl \<Rightarrow> fl \<Rightarrow> nat list \<Rightarrow> fl list \<Rightarrow> exn + fl list" where
  "mg_loop tau n beta gamma [] x = Inr x"
| "mg_loop tau n beta gamma (t # ts) x =
     (if 0 \<le> int t - tau then
        (if nat (int t - tau) < length x
         then mg_loop tau n beta gamma ts
                (x[t := mg_next n beta gamma (x ! (t - 1)) (x ! nat (int t - tau))])
         else Inl IndexError)
      else mg_loop tau n beta gamma ts (x[t := x ! (t - 1)]))"

text \<open>
  \<^verbatim>\<open>np.zeros(T)\<close> raises a ValueError for a negative length, and \<^verbatim>\<open>x[0] = 1.2\<close> an
  IndexError on the empty array.
\<close>

definition mackey_glass :: "int \<Rightarrow> int \<Rightarrow> int \<Rightarrow> fl \<Rightarrow> fl \<Rightarrow> exn + fl list" where
  "mackey_glass T tau n beta gamma =
     (if T < 0 then Inl ValueError
      else if T = 0 then Inl IndexError
      else mg_loop tau n beta gamma [1..<nat T] ((replicate (nat T) (Fin 0))[0 := Fin (12 / 10)]))"


section \<open>Definitions for the statements\<close>

text \<open>
  The shapes of the data model: \<open>Win\<close> has \<open>reservoir_size\<close> rows and one column (the input is
  a scalar sequence), \<open>W\<close> is square of size \<open>reservoir_size\<close>.
\<close>

definition well_shaped :: "'p esn \<Rightarrow> bool" where
  "well_shaped net \<longleftrightarrow>
     length (Win net) = reservoir_size net \<and> (\<forall>r \<in> set (Win net). length r = 1) \<and>
     length (W net) = reservoir_size net \<and> (\<forall>r \<in> set (W net). length r = reservoir_size net)"

text \<open>
  The recurrence as the specification writes it, \<open>tanh(Win \<cdot> [x] + W \<cdot> state)\<close>, and its
  \<open>t\<close>-fold unrolling from the zero state of length \<open>n\<close> along the input \<open>xs\<close>.
\<close>

definition reservoir_update :: "mat \<Rightarrow> mat \<Rightarrow> fl \<Rightarrow> vec \<Rightarrow> vec" where
  "reservoir_update A B x s =
     map ftanh (map2 fadd (map (\<lambda>r. dot r [x]) A) (map (\<lambda>r. dot r s) B))"

primrec unrolled :: "mat \<Rightarrow> mat \<Rightarrow> nat \<Rightarrow> vec \<Rightarrow> nat \<Rightarrow> vec" where
  "unrolled A B n xs 0 = replicate n (Fin 0)"
| "unrolled A B n xs (Suc t) = reservoir_update A B (xs ! t) (unrolled A B n xs t)"

text \<open>
  The state after \<open>t\<close> steps of the loop body of \<^verbatim>\<open>train\<close> from the zero state, with the
  shape errors of the tensor operations.
\<close>

primrec state_at :: "'p esn \<Rightarrow> vec \<Rightarrow> nat \<Rightarrow> exn + vec" where
  "state_at net xs 0 = Inr (replicate (reservoir_size net) (Fin 0))"
| "state_at net xs (Suc t) =
     (case state_at net xs t of
        Inl e \<Rightarrow> Inl e
      | Inr s \<Rightarrow> train_step net (xs ! t) s)"

text \<open>The open interval \<open>(-1, 1)\<close>, and the closed one together with NaN.\<close>

fun open_unit :: "fl \<Rightarrow> bool" where
  "open_unit (Fin a) = (- 1 < a \<and> a < 1)"
| "open_unit x = False"

fun closed_unit_or_nan :: "fl \<Rightarrow> bool" where
  "closed_unit_or_nan (Fin a) = (- 1 \<le> a \<and> a \<le> 1)"
| "closed_unit_or_nan NaN = True"
| "closed_unit_or_nan x = False"

text \<open>
  What the second call of \<^verbatim>\<open>train\<close> in a trial computes from the network it is given: the
  states along the test input, a readout fitted on these states and the test targets, its
  predictions on the same states, and their error against the test targets.
\<close>

definition refit_mse :: "('g, 'p) lib \<Rightarrow> 'p esn \<Rightarrow> vec \<Rightarrow> vec \<Rightarrow> exn + fl" where
  "refit_mse L net test_data test_target =
     (case train_states net test_data of
        Inl e \<Rightarrow> Inl e
      | Inr S \<Rightarrow>
          (case ridge_fit L (ridge_alpha (readout net)) S test_target of
             Inl e \<Rightarrow> Inl e
           | Inr p \<Rightarrow>
               (case ridge_predict L p S of
                  Inl e \<Rightarrow> Inl e
                | Inr predictions \<Rightarrow> mean_squared_error L test_target predictions)))"

text \<open>
  The error it is contrasted with: that of the readout fitted on the training data,
  applied to the states along the test input.
\<close>

definition reuse_mse :: "('g, 'p) lib \<Rightarrow> 'p esn \<Rightarrow> vec \<Rightarrow> vec \<Rightarrow> vec \<Rightarrow> vec \<Rightarrow> exn + fl" where
  "reuse_mse L net train_data target_data test_data test_target =
     (case train_states net train_data of
        Inl e \<Rightarrow> Inl e
      | Inr S \<Rightarrow>
          (case ridge_fit L (ridge_alpha (readout net)) S target_data of
             Inl e \<Rightarrow> Inl e
           | Inr p \<Rightarrow>
               (case train_states net test_data of
                  Inl e \<Rightarrow> Inl e
                | Inr S' \<Rightarrow>
                    (case ridge_predict L p S' of
                       Inl e \<Rightarrow> Inl e
                     | Inr predictions \<Rightarrow> mean_squared_error L test_target predictions))))"

text \<open>
  The dimension contract of the specification for one call of \<^verbatim>\<open>readout.fit\<close> of a
  network: the call fails exactly when some state has a width other than \<open>reservoir_size\<close>
  or the number of states is not the number of targets.
\<close>

definition dimension_contract :: "('g, 'p) lib \<Rightarrow> 'p esn \<Rightarrow> mat \<Rightarrow> vec \<Rightarrow> bool" where
  "dimension_contract L net X y \<longleftrightarrow>
     ((\<exists>e. Ridge_fit L (readout net) X y = Inl e) \<longleftrightarrow>
      ((\<exists>s \<in> set X. length s \<noteq> reservoir_size net) \<or> length X \<noteq> length y))"

text \<open>The fields \<^verbatim>\<open>initialize_weights\<close> and the readout's fit read.\<close>

definition same_config :: "'p esn \<Rightarrow> 'p esn \<Rightarrow> bool" where
  "same_config a b \<longleftrightarrow>
     input_dim a = input_dim b \<and> reservoir_size a = reservoir_size b \<and>
     spectral_radius a = spectral_radius b \<and> ridge_alpha (readout a) = ridge_alpha (readout b)"

text \<open>
  Eigenvalues of a real square matrix, over the complex numbers: \<open>z\<close> is an eigenvalue of
  \<open>A\<close> when \<open>A v = z v\<close> for a vector \<open>v\<close> that is not zero. The spectral radius is the
  largest magnitude of an eigenvalue.
\<close>

definition cmatvec :: "real list list \<Rightarrow> complex list \<Rightarrow> complex list" where
  "cmatvec A v = map (\<lambda>r. sum_list (map2 (\<lambda>a x. complex_of_real a * x) r v)) A"

definition is_eigenvalue :: "real list list \<Rightarrow> complex \<Rightarrow> bool" where
  "is_eigenvalue A z \<longleftrightarrow>
     (\<exists>v. length v = length A \<and> (\<exists>x \<in> set v. x \<noteq> 0) \<and> cmatvec A v = map ((*) z) v)"

definition is_spectral_radius :: "real list list \<Rightarrow> real \<Rightarrow> bool" where
  "is_spectral_radius A rho \<longleftrightarrow>
     (\<forall>r \<in> set A. length r = length A) \<and>
     (\<exists>z. is_eigenvalue A z \<and> cmod z = rho) \<and>
     (\<forall>z. is_eigenvalue A z \<longrightarrow> cmod z \<le> rho)"

text \<open>The spectral radius of a matrix the network holds: its entries are finite.\<close>

definition mat_spectral_radius :: "mat \<Rightarrow> real \<Rightarrow> bool" where
  "mat_spectral_radius M rho \<longleftrightarrow> (\<exists>A. M = fin_mat A \<and> is_spectral_radius A rho)"

definition scale_mat :: "real \<Rightarrow> real list list \<Rightarrow> real list list" where
  "scale_mat c A = map (map (\<lambda>w. w * c)) A"


text \<open>
  The loop invariant of the generator: after the steps \<open>t < k\<close> the array has its length,
  its first element, and the two recurrences up to \<open>k\<close>.
\<close>

definition mg_inv :: "int \<Rightarrow> int \<Rightarrow> fl \<Rightarrow> fl \<Rightarrow> nat \<Rightarrow> nat \<Rightarrow> fl list \<Rightarrow> bool" where
  "mg_inv tau n beta gamma N k x \<longleftrightarrow>
     length x = N \<and> x ! 0 = Fin (12 / 10) \<and>
     (\<forall>t. 1 \<le> t \<and> t < k \<and> int t < tau \<longrightarrow> x ! t = x ! (t - 1)) \<and>
     (\<forall>t. tau \<le> int t \<and> t < k \<longrightarrow>
        x ! t = mg_next n beta gamma (x ! (t - 1)) (x ! nat (int t - tau)))"


section \<open>Concrete inputs\<close>

text \<open>
  An instance of the library interface on which the statements are evaluated: a generator
  whose state counts the draws (it draws 0.5 in the state 1 and 0.75 in every other state;
  the seed \<open>i\<close> sets the state \<open>i + 2\<close>), the eigenvalue of a matrix with one entry, a
  readout that always predicts its first target, and the mean of the squared differences.
\<close>

definition lib0 :: "(nat, fl) lib" where
  "lib0 =
     \<lparr>manual_seed = (\<lambda>i. i + 2),
      torch_rand = (\<lambda>g r c. (replicate r (replicate c (if g = 1 then 1 / 2 else 3 / 4)), Suc g)),
      linalg_eig = (\<lambda>M. case M of [[Fin a]] \<Rightarrow> Inr [complex_of_real a] | _ \<Rightarrow> Inl LibraryError),
      ridge_fit = (\<lambda>a X y. if X = [] \<or> length X \<noteq> length y then Inl ValueError else Inr (hd y)),
      ridge_predict = (\<lambda>p X. Inr (map (\<lambda>s. p) X)),
      mean_squared_error = (\<lambda>y p. if y = [] \<or> length y \<noteq> length p then Inl ValueError
         else Inr (fdiv (foldl fadd (Fin 0) (map2 (\<lambda>a b. fmul (fsub a b) (fsub a b)) y p))
                    (Fin (real (length y)))))\<rparr>"

text \<open>A network with one neuron and one with two, both with the default hyperparameters.\<close>

definition net1 :: "fl esn" where
  "net1 =
     \<lparr>input_dim = 1, reservoir_size = 1, output_dim = 1, spectral_radius = 9 / 10,
      alpha = 1 / 1000000, Win = [[Fin (1 / 2)]], W = [[Fin (9 / 10)]],
      readout = \<lparr>ridge_alpha = 1 / 1000000, fitted = None\<rparr>\<rparr>"

definition net2 :: "fl esn" where
  "net2 =
     \<lparr>input_dim = 1, reservoir_size = 2, output_dim = 1, spectral_radius = 9 / 10,
      alpha = 1 / 1000000, Win = [[Fin (1 / 2)], [Fin (- 1 / 2)]],
      W = [[Fin 0, Fin (9 / 10)], [Fin (9 / 10), Fin 0]],
      readout = \<lparr>ridge_alpha = 1 / 1000000, fitted = None\<rparr>\<rparr>"


section \<open>Properties of the forward pass\<close>

lemma length_reservoir_update:
  "length A = n \<Longrightarrow> length B = n \<Longrightarrow> length (reservoir_update A B x s) = n"
  by (simp add: reservoir_update_def)

lemma train_step_well_shaped:
  assumes "well_shaped net" "length s = reservoir_size net"
  shows "train_step net x s = Inr (reservoir_update (Win net) (W net) x s)"
  using assms by (simp add: train_step_def matvec_def tadd_def well_shaped_def reservoir_update_def)

lemma length_unrolled:
  "length A = n \<Longrightarrow> length B = n \<Longrightarrow> length (unrolled A B n xs t) = n"
  by (induction t) (simp_all add: length_reservoir_update)

lemma train_loop_unrolled:
  assumes "well_shaped net" "k \<le> length xs"
  shows "train_loop net (drop k xs) (unrolled (Win net) (W net) (reservoir_size net) xs k) acc =
         Inr (acc @ map (\<lambda>t. unrolled (Win net) (W net) (reservoir_size net) xs (Suc t)) [k..<length xs])"
  using assms(2)
proof (induction "length xs - k" arbitrary: k acc)
  case 0
  then show ?case by simp
next
  case (Suc d)
  then have k: "k < length xs" by simp
  let ?s = "unrolled (Win net) (W net) (reservoir_size net) xs k"
  have len: "length ?s = reservoir_size net"
    using assms(1) by (simp add: length_unrolled well_shaped_def)
  have dr: "drop k xs = xs ! k # drop (Suc k) xs"
    using k by (simp add: Cons_nth_drop_Suc)
  have d: "d = length xs - Suc k" using Suc.hyps(2) by simp
  have "Suc k \<le> length xs" using k by simp
  from Suc.hyps(1)[OF d this]
  have IH: "\<And>acc. train_loop net (drop (Suc k) xs)
        (unrolled (Win net) (W net) (reservoir_size net) xs (Suc k)) acc =
      Inr (acc @ map (\<lambda>t. unrolled (Win net) (W net) (reservoir_size net) xs (Suc t))
             [Suc k..<length xs])" .
  have "train_loop net (drop k xs) ?s acc =
        train_loop net (drop (Suc k) xs)
          (unrolled (Win net) (W net) (reservoir_size net) xs (Suc k))
          (acc @ [unrolled (Win net) (W net) (reservoir_size net) xs (Suc k)])"
    by (simp add: dr train_step_well_shaped[OF assms(1) len])
  also have "\<dots> = Inr ((acc @ [unrolled (Win net) (W net) (reservoir_size net) xs (Suc k)]) @
      map (\<lambda>t. unrolled (Win net) (W net) (reservoir_size net) xs (Suc t)) [Suc k..<length xs])"
    by (rule IH)
  finally show ?case using k by (simp add: upt_conv_Cons del: unrolled.simps)
qed

lemma train_states_explicit:
  assumes "well_shaped net"
  shows "train_states net xs =
         Inr (map (\<lambda>t. unrolled (Win net) (W net) (reservoir_size net) xs (Suc t)) [0..<length xs])"
  using train_loop_unrolled[OF assms, of 0 xs "[]"] by (simp add: train_states_def)

lemma state_at_well_shaped:
  assumes "well_shaped net"
  shows "state_at net xs t = Inr (unrolled (Win net) (W net) (reservoir_size net) xs t)"
proof (induction t)
  case 0
  show ?case by simp
next
  case (Suc t)
  have "length (unrolled (Win net) (W net) (reservoir_size net) xs t) = reservoir_size net"
    using assms by (simp add: length_unrolled well_shaped_def)
  then show ?case by (simp add: Suc train_step_well_shaped[OF assms])
qed

text \<open>
  Whatever the shapes: when the loop returns, it has appended one state per remaining
  input element, each the next step from the one before.
\<close>

lemma train_loop_prefix:
  "train_loop net ys s acc = Inr traj \<Longrightarrow> \<exists>rest. traj = acc @ rest \<and> length rest = length ys"
proof (induction ys arbitrary: s acc)
  case Nil
  then show ?case by simp
next
  case (Cons y ys)
  from Cons.prems obtain s' where "train_loop net ys s' (acc @ [s']) = Inr traj"
    by (auto split: sum.splits)
  from Cons.IH[OF this] obtain rest where "traj = (acc @ [s']) @ rest" "length rest = length ys"
    by blast
  then have "traj = acc @ (s' # rest) \<and> length (s' # rest) = length (y # ys)" by simp
  then show ?case by blast
qed

lemma train_loop_state_at:
  assumes "k \<le> length xs" "state_at net xs k = Inr s"
    and "train_loop net (drop k xs) s acc = Inr traj"
  shows "\<forall>t. k \<le> t \<and> t < length xs \<longrightarrow>
           state_at net xs (Suc t) = Inr (traj ! (length acc + (t - k)))"
  using assms
proof (induction "length xs - k" arbitrary: k s acc)
  case 0
  then have "\<not> (k \<le> t \<and> t < length xs)" for t by simp
  then show ?case by blast
next
  case (Suc d)
  then have k: "k < length xs" by simp
  have dr: "drop k xs = xs ! k # drop (Suc k) xs"
    using k by (simp add: Cons_nth_drop_Suc)
  from Suc.prems(3) obtain s' where s': "train_step net (xs ! k) s = Inr s'"
    and rest: "train_loop net (drop (Suc k) xs) s' (acc @ [s']) = Inr traj"
    by (auto simp: dr split: sum.splits)
  have st: "state_at net xs (Suc k) = Inr s'" using Suc.prems(2) s' by simp
  have d: "d = length xs - Suc k" using Suc.hyps(2) by simp
  have k': "Suc k \<le> length xs" using k by simp
  from Suc.hyps(1)[OF d k' st rest]
  have later: "\<forall>t. Suc k \<le> t \<and> t < length xs \<longrightarrow>
      state_at net xs (Suc t) = Inr (traj ! (length (acc @ [s']) + (t - Suc k)))" .
  from train_loop_prefix[OF rest] obtain r where "traj = (acc @ [s']) @ r" by blast
  then have first: "traj ! length acc = s'" by simp
  show ?case
  proof (intro allI impI)
    fix t assume t: "k \<le> t \<and> t < length xs"
    show "state_at net xs (Suc t) = Inr (traj ! (length acc + (t - k)))"
    proof (cases "t = k")
      case True
      then show ?thesis using st first by simp
    next
      case False
      then have t': "Suc k \<le> t \<and> t < length xs" using t by simp
      have e: "length (acc @ [s']) + (t - Suc k) = length acc + (t - k)" using t' by auto
      have "state_at net xs (Suc t) = Inr (traj ! (length (acc @ [s']) + (t - Suc k)))"
        using later t' by blast
      then show ?thesis by (simp only: e)
    qed
  qed
qed

text \<open>
  Claim C2: the state loop of \<^verbatim>\<open>train\<close> starts from the zero state of length
  \<open>reservoir_size\<close> and appends one state per input element, each the step
  \<open>state \<leftarrow> tanh(Win \<cdot> [input[t]] + W \<cdot> state)\<close> from the one before. Whenever it returns a
  trajectory (the tensor operations raise on shapes that do not fit), the trajectory has
  exactly \<open>T\<close> states and the \<open>t\<close>-th is the state after \<open>t + 1\<close> steps from zero. For a
  network of the shapes of the data model it always returns, and the \<open>t\<close>-th state is the
  \<open>(t + 1)\<close>-fold unrolling of the recurrence as the specification writes it.
\<close>

theorem train_states_unrolled:
  "(\<forall>traj. train_states net xs = Inr traj \<longrightarrow>
      length traj = length xs \<and>
      (\<forall>t < length xs. state_at net xs (Suc t) = Inr (traj ! t))) \<and>
   (well_shaped net \<longrightarrow>
      (\<exists>traj. train_states net xs = Inr traj \<and> length traj = length xs \<and>
         (\<forall>t < length xs.
            traj ! t = unrolled (Win net) (W net) (reservoir_size net) xs (Suc t))))"
proof (intro conjI allI impI)
  fix traj assume t: "train_states net xs = Inr traj"
  then have loop: "train_loop net (drop 0 xs) (replicate (reservoir_size net) (Fin 0)) [] = Inr traj"
    by (simp add: train_states_def)
  from train_loop_prefix[OF loop] show "length traj = length xs" by auto
  fix t assume "t < length xs"
  then show "state_at net xs (Suc t) = Inr (traj ! t)"
    using train_loop_state_at[OF _ _ loop, of ] by simp
next
  assume ws: "well_shaped net"
  show "\<exists>traj. train_states net xs = Inr traj \<and> length traj = length xs \<and>
      (\<forall>t < length xs. traj ! t = unrolled (Win net) (W net) (reservoir_size net) xs (Suc t))"
    by (simp add: train_states_explicit[OF ws] del: unrolled.simps)
qed

theorem train_states_unrolled_witness:
  "well_shaped net2 \<and>
   (\<exists>traj. train_states net2 [Fin 1, Fin 2] = Inr traj \<and> length traj = 2 \<and>
      traj ! 0 = unrolled (Win net2) (W net2) (reservoir_size net2) [Fin 1, Fin 2] 1 \<and>
      traj ! 1 = unrolled (Win net2) (W net2) (reservoir_size net2) [Fin 1, Fin 2] 2)"
proof -
  have ws: "well_shaped net2" by (simp add: well_shaped_def net2_def)
  from train_states_unrolled[of net2 "[Fin 1, Fin 2]"] ws
  obtain traj where t: "train_states net2 [Fin 1, Fin 2] = Inr traj" "length traj = 2"
    "\<forall>t < length [Fin 1, Fin 2 :: fl].
        traj ! t = unrolled (Win net2) (W net2) (reservoir_size net2) [Fin 1, Fin 2] (Suc t)"
    by auto
  have "traj ! 0 = unrolled (Win net2) (W net2) (reservoir_size net2) [Fin 1, Fin 2] 1"
    using t(3)[rule_format, of 0] by simp
  moreover have "traj ! 1 = unrolled (Win net2) (W net2) (reservoir_size net2) [Fin 1, Fin 2] 2"
    using t(3)[rule_format, of 1] by (simp add: eval_nat_numeral)
  ultimately show ?thesis using ws t(1,2) by blast
qed


text \<open>
  Rounding keeps a number of magnitude at most one within that bound, and it takes
  \<open>tanh 10 = 1 - 4.1e-9\<close> to \<open>1\<close>: the nearest numbers below \<open>1\<close> are \<open>2^(-24)\<close> apart.
\<close>

lemma rne_le: "x \<le> of_int n \<Longrightarrow> rne x \<le> n"
proof -
  assume a: "x \<le> of_int n"
  have f: "of_int \<lfloor>x\<rfloor> \<le> x" by simp
  have "\<lfloor>x\<rfloor> \<le> n" using a by (simp add: floor_le_iff)
  moreover have "1 / 2 \<le> x - of_int \<lfloor>x\<rfloor> \<Longrightarrow> \<lfloor>x\<rfloor> + 1 \<le> n"
  proof -
    assume "1 / 2 \<le> x - of_int \<lfloor>x\<rfloor>"
    then have "of_int \<lfloor>x\<rfloor> < (of_int n :: real)" using a by linarith
    then show ?thesis by simp
  qed
  ultimately show ?thesis unfolding rne_def Let_def by (auto simp: not_less)
qed

lemma rne_up: "1 / 2 < x - of_int \<lfloor>x\<rfloor> \<Longrightarrow> rne x = \<lfloor>x\<rfloor> + 1"
  by (simp add: rne_def Let_def)

lemma rne_ge: "of_int n \<le> x \<Longrightarrow> n \<le> rne x"
proof -
  assume "of_int n \<le> x"
  then have "n \<le> \<lfloor>x\<rfloor>" by (simp add: le_floor_iff)
  then show ?thesis unfolding rne_def Let_def by auto
qed

lemma round32_unit:
  assumes "\<bar>y\<bar> \<le> 1"
  shows "\<bar>round32 y\<bar> \<le> 1"
proof (cases "y = 0")
  case True
  then show ?thesis by (simp add: round32_def)
next
  case False
  define e where "e = max \<lfloor>log 2 \<bar>y\<bar>\<rfloor> (- 126)"
  define k where "k = nat (23 - e)"
  have "log 2 \<bar>y\<bar> \<le> 0" using assms False by (simp add: zero_less_abs_iff)
  then have "\<lfloor>log 2 \<bar>y\<bar>\<rfloor> \<le> 0" by (simp add: floor_le_iff)
  then have e: "e \<le> 0" by (simp add: e_def)
  then have ulp: "f32_ulp y = 1 / 2 ^ k" by (simp add: f32_ulp_def e_def[symmetric] k_def)
  have "\<bar>y * 2 ^ k\<bar> \<le> 2 ^ k" using assms by (simp add: abs_mult mult_le_cancel_right1)
  then have "- (2 ^ k) \<le> y * 2 ^ k \<and> y * 2 ^ k \<le> 2 ^ k" by linarith
  then have b: "y * 2 ^ k \<le> of_int (2 ^ k)" "of_int (- (2 ^ k)) \<le> y * 2 ^ k" by simp_all
  have "rne (y * 2 ^ k) \<le> 2 ^ k" using b(1) by (rule rne_le)
  moreover have "- (2 ^ k) \<le> rne (y * 2 ^ k)" using b(2) by (rule rne_ge)
  ultimately have "\<bar>rne (y * 2 ^ k)\<bar> \<le> 2 ^ k" by linarith
  then have "real_of_int \<bar>rne (y * 2 ^ k)\<bar> \<le> real_of_int (2 ^ k)"
    by (simp only: of_int_le_iff)
  then have "\<bar>real_of_int (rne (y * 2 ^ k))\<bar> \<le> 2 ^ k" by simp
  then have "\<bar>real_of_int (rne (y * 2 ^ k)) / 2 ^ k\<bar> \<le> 1" by (simp add: abs_divide divide_le_eq)
  then show ?thesis using False by (simp add: round32_def ulp)
qed

lemma tanh_10_lower: "1 - 1 / 2 ^ 25 < tanh (10::real)"
proof -
  have e1: "5 / 2 \<le> exp (1::real)"
    using exp_lower_Taylor_quadratic[of "1::real"] by simp
  have "exp (20::real) = exp 1 ^ 20" using exp_of_nat_mult[of 20 "1::real"] by simp
  moreover have "(5 / 2 :: real) ^ 20 \<le> exp 1 ^ 20" using e1 by (intro power_mono) simp_all
  moreover have "(2::real) ^ 26 < (5 / 2) ^ 20" by (simp add: power_divide)
  ultimately have big: "(2::real) ^ 26 < exp 20" by linarith
  have "inverse (exp (20::real)) < inverse (2 ^ 26)"
    using big by (intro less_imp_inverse_less) simp_all
  then have small: "exp (- 20 :: real) < 1 / 2 ^ 26" by (simp add: exp_minus inverse_eq_divide)
  have pos: "0 < exp (- 20 :: real)" by simp
  have "tanh (10::real) = (1 - exp (- 20)) / (1 + exp (- 20))"
    using tanh_real_altdef[of 10] by simp
  also have "\<dots> = 1 - 2 * exp (- 20) / (1 + exp (- 20))"
  proof -
    have "1 + exp (- 20 :: real) \<noteq> 0" using pos by linarith
    then show ?thesis by (simp add: field_simps)
  qed
  finally have t: "tanh (10::real) = 1 - 2 * exp (- 20) / (1 + exp (- 20))" .
  have "2 * exp (- 20 :: real) / (1 + exp (- 20)) \<le> 2 * exp (- 20) / 1"
  proof (intro divide_left_mono)
    show "1 \<le> 1 + exp (- 20 :: real)" using pos by linarith
    show "0 \<le> 2 * exp (- 20 :: real)" using pos by linarith
    have "0 < 1 + exp (- 20 :: real)" using pos by linarith
    then show "0 < (1 + exp (- 20 :: real)) * 1" by (simp only: mult_1_right)
  qed
  then show ?thesis using t small by simp
qed

lemma round32_tanh_10: "round32 (tanh 10) = 1"
proof -
  let ?t = "tanh (10::real)"
  have lo: "1 - 1 / 2 ^ 25 < ?t" by (rule tanh_10_lower)
  have hi: "?t < 1" by (rule tanh_real_lt_1)
  have half: "1 / 2 \<le> ?t" using lo by simp
  have l1: "log 2 ?t < 0" using hi half by simp
  have "log 2 (1 / 2) \<le> log 2 ?t" using half by (intro log_mono) simp_all
  then have l2: "- 1 \<le> log 2 ?t" by (simp add: log_divide)
  have ab: "\<bar>?t\<bar> = ?t" using half by simp
  have fl: "\<lfloor>log 2 ?t\<rfloor> = - 1" using l1 l2 by (simp add: floor_eq_iff)
  have ulp: "f32_ulp ?t = 1 / 2 ^ 24" unfolding f32_ulp_def ab fl by simp
  let ?x = "?t * 2 ^ 24"
  have x1: "2 ^ 24 - 1 / 2 < ?x" using lo by (simp add: field_simps)
  have x2: "?x < 2 ^ 24" using hi by simp
  have fx: "\<lfloor>?x\<rfloor> = 2 ^ 24 - 1" using x1 x2 by (simp add: floor_eq_iff)
  have "1 / 2 < ?x - of_int \<lfloor>?x\<rfloor>" unfolding fx using x1 by simp
  then have "rne ?x = \<lfloor>?x\<rfloor> + 1" by (rule rne_up)
  then have r: "rne ?x = 2 ^ 24" unfolding fx by simp
  have "?t \<noteq> 0" using half by simp
  then have "round32 ?t = (1 / 2 ^ 24) * of_int (rne (?t / (1 / 2 ^ 24)))"
    by (simp only: round32_def ulp if_False)
  also have "?t / (1 / 2 ^ 24) = ?x" by simp
  finally show ?thesis unfolding r by simp
qed

text \<open>Every state is the image of a vector under the rounded \<open>tanh\<close>.\<close>

lemma closed_unit_ftanh: "closed_unit_or_nan (ftanh c)"
proof (cases c)
  case (Fin a)
  have "- 1 < tanh a" "tanh a < 1" by (rule tanh_real_gt_neg1, rule tanh_real_lt_1)
  then have "\<bar>tanh a\<bar> \<le> 1" by linarith
  then have "\<bar>round32 (tanh a)\<bar> \<le> 1" by (rule round32_unit)
  then show ?thesis using Fin by (simp add: abs_le_iff)
qed simp_all

lemma train_step_closed:
  "train_step net x s = Inr s' \<Longrightarrow> \<forall>c \<in> set s'. closed_unit_or_nan c"
  by (auto simp: train_step_def closed_unit_ftanh split: sum.splits)

lemma train_loop_closed:
  assumes "train_loop net xs s acc = Inr traj"
    and "\<forall>v \<in> set acc. \<forall>c \<in> set v. closed_unit_or_nan c"
  shows "\<forall>v \<in> set traj. \<forall>c \<in> set v. closed_unit_or_nan c"
  using assms
proof (induction xs arbitrary: s acc)
  case Nil
  then show ?case by simp
next
  case (Cons x xs)
  from Cons.prems(1) obtain s' where s': "train_step net x s = Inr s'"
    and rest: "train_loop net xs s' (acc @ [s']) = Inr traj"
    by (auto split: sum.splits)
  have "\<forall>v \<in> set (acc @ [s']). \<forall>c \<in> set v. closed_unit_or_nan c"
    using Cons.prems(2) train_step_closed[OF s'] by auto
  from Cons.IH[OF rest this] show ?case .
qed

text \<open>
  Claim C5, as amended: every component of every state of the trajectory lies in the closed
  interval \<open>[-1, 1]\<close>, or is NaN.
\<close>

theorem train_states_bounded:
  assumes "train_states net xs = Inr traj"
  shows "\<forall>s \<in> set traj. \<forall>c \<in> set s. closed_unit_or_nan c"
  using train_loop_closed[OF assms[unfolded train_states_def]] by simp

theorem train_states_bounded_witness:
  "train_states net1 [Fin 1] = Inr [[Fin (round32 (tanh (1 / 2)))]] \<and>
   closed_unit_or_nan (Fin (round32 (tanh (1 / 2))))"
proof -
  have t: "train_states net1 [Fin 1] = Inr [[Fin (round32 (tanh (1 / 2)))]]"
    by (simp add: train_states_def train_step_def matvec_def tadd_def dot_def net1_def)
  from train_states_bounded[OF t] show ?thesis using t by simp
qed

text \<open>
  The claim as stated fails on a finite input: on the input \<open>[20.0]\<close> the state of the
  one-neuron network is \<open>tanh(0.5 * 20 + 0.9 * 0) = tanh(10)\<close>, which in \<^verbatim>\<open>float32\<close> is
  exactly \<open>1.0\<close> and so not strictly within \<open>(-1, 1)\<close>.
\<close>

theorem train_states_open_interval_counterexample:
  "train_states net1 [Fin 20] = Inr [[Fin 1]] \<and> \<not> open_unit ([[Fin 1]] ! 0 ! 0)"
  by (simp add: train_states_def train_step_def matvec_def tadd_def dot_def net1_def
      round32_tanh_10)


lemma train_step_cong:
  "Win a = Win b \<Longrightarrow> W a = W b \<Longrightarrow> train_step a x s = train_step b x s"
  by (simp add: train_step_def cong: sum.case_cong)

lemma train_loop_cong:
  assumes "Win a = Win b" "W a = W b"
  shows "train_loop a xs s acc = train_loop b xs s acc"
proof (induction xs arbitrary: s acc)
  case Nil
  show ?case by simp
next
  case (Cons x xs)
  show ?case
    by (simp add: train_step_cong[OF assms] Cons.IH cong: sum.case_cong)
qed

text \<open>
  Claim C7: the forward pass is a function of \<open>Win\<close>, \<open>W\<close> and the input sequence. Two
  networks that hold the same \<open>Win\<close> and the same \<open>W\<close> (each with \<open>reservoir_size\<close> the
  number of rows of its \<open>W\<close>, as the data model has it) produce the same trajectory on
  the same input, whatever their other fields, their readouts and the state of the random
  generator, which the pass does not take.
\<close>

theorem train_states_deterministic:
  assumes "Win a = Win b" "W a = W b"
    and "length (W a) = reservoir_size a" "length (W b) = reservoir_size b"
  shows "train_states a xs = train_states b xs"
proof -
  have "reservoir_size a = reservoir_size b" using assms(2,3,4) by simp
  then show ?thesis by (simp add: train_states_def train_loop_cong[OF assms(1,2)])
qed

theorem train_states_deterministic_witness:
  "Win net2 = Win (net2\<lparr>alpha := 5, readout := \<lparr>ridge_alpha = 5, fitted = Some PInf\<rparr>\<rparr>) \<and>
   W net2 = W (net2\<lparr>alpha := 5, readout := \<lparr>ridge_alpha = 5, fitted = Some PInf\<rparr>\<rparr>) \<and>
   length (W net2) = reservoir_size net2 \<and>
   train_states net2 [Fin 1, Fin 2] =
     train_states (net2\<lparr>alpha := 5, readout := \<lparr>ridge_alpha = 5, fitted = Some PInf\<rparr>\<rparr>) [Fin 1, Fin 2]"
  using train_states_deterministic
    [of net2 "net2\<lparr>alpha := 5, readout := \<lparr>ridge_alpha = 5, fitted = Some PInf\<rparr>\<rparr>" "[Fin 1, Fin 2]"]
  by (simp add: net2_def)


section \<open>Properties of training\<close>

lemma train_result:
  assumes "train L net xs ys = Inr (net', predictions)"
  shows "\<exists>S p. train_states net xs = Inr S \<and>
           ridge_fit L (ridge_alpha (readout net)) S ys = Inr p \<and>
           ridge_predict L p S = Inr predictions \<and>
           net' = net\<lparr>readout := (readout net)\<lparr>fitted := Some p\<rparr>\<rparr>"
  using assms
  by (auto simp: train_def Ridge_fit_def Ridge_predict_def split: sum.splits)

text \<open>
  Claim C9: a successful \<^verbatim>\<open>train\<close> changes the readout only. \<open>Win\<close>, \<open>W\<close>, \<open>input_dim\<close>,
  \<open>reservoir_size\<close>, \<open>output_dim\<close>, \<open>spectral_radius\<close> and \<open>alpha\<close> are the same before and after
  the call: the network returned is the one given, with another readout.
\<close>

theorem train_frame:
  assumes "train L net xs ys = Inr (net', predictions)"
  shows "Win net' = Win net \<and> W net' = W net \<and> input_dim net' = input_dim net \<and>
         reservoir_size net' = reservoir_size net \<and> output_dim net' = output_dim net \<and>
         spectral_radius net' = spectral_radius net \<and> alpha net' = alpha net \<and>
         net'\<lparr>readout := readout net\<rparr> = net"
proof -
  from train_result[OF assms] obtain p
    where "net' = net\<lparr>readout := (readout net)\<lparr>fitted := Some p\<rparr>\<rparr>" by blast
  then show ?thesis by simp
qed

theorem train_frame_witness:
  "\<exists>net' predictions. train lib0 net1 [Fin 1, Fin 2] [Fin 3, Fin 4] = Inr (net', predictions) \<and>
     Win net' = Win net1 \<and> W net' = W net1 \<and> input_dim net' = input_dim net1 \<and>
     reservoir_size net' = reservoir_size net1 \<and> output_dim net' = output_dim net1 \<and>
     spectral_radius net' = spectral_radius net1 \<and> alpha net' = alpha net1 \<and>
     net'\<lparr>readout := readout net1\<rparr> = net1"
proof -
  have "\<exists>net' predictions. train lib0 net1 [Fin 1, Fin 2] [Fin 3, Fin 4] = Inr (net', predictions)"
    by (simp add: train_def train_states_def train_step_def matvec_def tadd_def dot_def
        Ridge_fit_def Ridge_predict_def lib0_def net1_def)
  then obtain net' predictions
    where t: "train lib0 net1 [Fin 1, Fin 2] [Fin 3, Fin 4] = Inr (net', predictions)" by blast
  from train_frame[OF t] t show ?thesis by blast
qed


section \<open>Properties of the trial runner\<close>

lemma adjust_spectral_radius_fields:
  assumes "adjust_spectral_radius L net = Inr net'"
  shows "\<exists>M. net' = net\<lparr>W := M\<rparr>"
  using assms by (auto simp: adjust_spectral_radius_def split: sum.splits)

lemma adjust_spectral_radius_cong:
  assumes "W a = W b" "spectral_radius a = spectral_radius b"
    and "adjust_spectral_radius L a = Inr a'"
  shows "\<exists>b'. adjust_spectral_radius L b = Inr b' \<and> W b' = W a' \<and> b' = b\<lparr>W := W a'\<rparr>"
  using assms by (auto simp: adjust_spectral_radius_def split: sum.splits)

lemma initialize_weights_config:
  assumes "initialize_weights L m g = Inr (m1, g1)"
  shows "same_config m m1"
proof -
  from assms obtain A B M where "m1 = m\<lparr>Win := A, W := B, W := M\<rparr>"
    by (auto simp: initialize_weights_def split: prod.splits sum.splits
        dest!: adjust_spectral_radius_fields)
  then show ?thesis by (simp add: same_config_def)
qed

lemma initialize_weights_cong:
  assumes "same_config a b" "initialize_weights L a g = Inr (a1, g1)"
  shows "\<exists>b1. initialize_weights L b g = Inr (b1, g1) \<and> Win b1 = Win a1 \<and> W b1 = W a1 \<and>
           same_config a1 b1"
proof -
  obtain A g' where A: "torch_rand L g (reservoir_size a) (input_dim a) = (A, g')"
    by (cases "torch_rand L g (reservoir_size a) (input_dim a)")
  obtain B g'' where B: "torch_rand L g' (reservoir_size a) (reservoir_size a) = (B, g'')"
    by (cases "torch_rand L g' (reservoir_size a) (reservoir_size a)")
  let ?a = "a\<lparr>Win := fin_mat (uniform_pm1 A), W := fin_mat (uniform_pm1 B)\<rparr>"
  let ?b = "b\<lparr>Win := fin_mat (uniform_pm1 A), W := fin_mat (uniform_pm1 B)\<rparr>"
  from assms(2) A B have adj: "adjust_spectral_radius L ?a = Inr a1" and g1: "g1 = g''"
    by (auto simp: initialize_weights_def split: sum.splits)
  have "W ?a = W ?b" "spectral_radius ?a = spectral_radius ?b"
    using assms(1) by (simp_all add: same_config_def)
  from adjust_spectral_radius_cong[OF this adj]
  obtain b1 where b1: "adjust_spectral_radius L ?b = Inr b1" "W b1 = W a1" "b1 = ?b\<lparr>W := W a1\<rparr>"
    by blast
  from adjust_spectral_radius_fields[OF adj] obtain M where a1: "a1 = ?a\<lparr>W := M\<rparr>" by blast
  have "initialize_weights L b g = Inr (b1, g1)"
    using assms(1) A B b1(1) g1 by (simp add: initialize_weights_def same_config_def)
  moreover have "Win b1 = Win a1" using b1(3) a1 by simp
  moreover have "same_config a1 b1" using b1(3) a1 assms(1) by (simp add: same_config_def)
  ultimately show ?thesis using b1(2) by blast
qed

lemma train_config:
  assumes "train L m xs ys = Inr (m', predictions)"
  shows "same_config m m' \<and> Win m' = Win m \<and> W m' = W m"
proof -
  from train_result[OF assms] obtain p
    where "m' = m\<lparr>readout := (readout m)\<lparr>fitted := Some p\<rparr>\<rparr>" by blast
  then show ?thesis by (simp add: same_config_def)
qed

lemma same_config_trans: "same_config a b \<Longrightarrow> same_config b c \<Longrightarrow> same_config a c"
  by (simp add: same_config_def)

lemma same_config_sym: "same_config a b \<Longrightarrow> same_config b a"
  by (simp add: same_config_def)

lemma refit_mse_cong:
  assumes "Win a = Win b" "W a = W b" "same_config a b"
  shows "refit_mse L a xs ys = refit_mse L b xs ys"
proof -
  have "reservoir_size a = reservoir_size b" using assms(3) by (simp add: same_config_def)
  then have "train_states a xs = train_states b xs"
    by (simp add: train_states_def train_loop_cong[OF assms(1,2)])
  then show ?thesis
    using assms(3) by (simp add: refit_mse_def same_config_def cong: sum.case_cong)
qed

lemma train_refit_mse:
  assumes "train L m xs ys = Inr (m', predictions)"
  shows "refit_mse L m xs ys = mean_squared_error L ys predictions"
proof -
  from train_result[OF assms] obtain S p where "train_states m xs = Inr S"
    "ridge_fit L (ridge_alpha (readout m)) S ys = Inr p" "ridge_predict L p S = Inr predictions"
    by blast
  then show ?thesis by (simp add: refit_mse_def)
qed

lemma trial_result:
  assumes "trial L tr tg te tt i m = Inr (m3, g1, mse, test_mse)"
  shows "same_config m m3 \<and>
         (\<exists>m1. initialize_weights L m (manual_seed L i) = Inr (m1, g1) \<and>
               refit_mse L m1 te tt = Inr test_mse)"
proof -
  from assms obtain m1 m2 p1 p2
    where i: "initialize_weights L m (manual_seed L i) = Inr (m1, g1)"
      and t1: "train L m1 tr tg = Inr (m2, p1)"
      and t2: "train L m2 te tt = Inr (m3, p2)"
      and e: "mean_squared_error L tt p2 = Inr test_mse"
    by (auto simp: trial_def split: sum.splits prod.splits)
  note c1 = train_config[OF t1] and c2 = train_config[OF t2]
  have "refit_mse L m1 te tt = refit_mse L m2 te tt"
    using c1 by (intro refit_mse_cong) simp_all
  also have "\<dots> = Inr test_mse" using train_refit_mse[OF t2] e by simp
  finally have r: "refit_mse L m1 te tt = Inr test_mse" .
  have "same_config m m3"
    using initialize_weights_config[OF i] c1 c2 by (blast intro: same_config_trans)
  then show ?thesis using i r by blast
qed

lemma trials_result:
  assumes "same_config model m"
    and "trials L tr tg te tt is m g rs ts = Inr (m', g', rs', ts')"
  shows "length ts' = length ts + length is \<and> take (length ts) ts' = ts \<and>
         (\<forall>j < length is. \<exists>m1 g1.
            initialize_weights L model (manual_seed L (is ! j)) = Inr (m1, g1) \<and>
            refit_mse L m1 te tt = Inr (ts' ! (length ts + j)))"
  using assms
proof (induction "is" arbitrary: m g rs ts)
  case Nil
  then show ?case by simp
next
  case (Cons i "is")
  from Cons.prems(2) obtain m3 g1 mse test_mse
    where t: "trial L tr tg te tt i m = Inr (m3, g1, mse, test_mse)"
      and rest: "trials L tr tg te tt is m3 g1 (rs @ [mse]) (ts @ [test_mse]) = Inr (m', g', rs', ts')"
    by (auto split: sum.splits prod.splits)
  from trial_result[OF t] obtain m1
    where c: "same_config m m3"
      and i1: "initialize_weights L m (manual_seed L i) = Inr (m1, g1)"
      and r1: "refit_mse L m1 te tt = Inr test_mse" by blast
  have c3: "same_config model m3" using Cons.prems(1) c by (rule same_config_trans)
  from Cons.IH[OF c3 rest]
  have len: "length ts' = length (ts @ [test_mse]) + length is"
    and tk: "take (length (ts @ [test_mse])) ts' = ts @ [test_mse]"
    and all: "\<forall>j < length is. \<exists>m1 g1.
        initialize_weights L model (manual_seed L (is ! j)) = Inr (m1, g1) \<and>
        refit_mse L m1 te tt = Inr (ts' ! (length (ts @ [test_mse]) + j))"
    by blast+
  from initialize_weights_cong[OF same_config_sym[OF Cons.prems(1)] i1]
  obtain n1 where n1: "initialize_weights L model (manual_seed L i) = Inr (n1, g1)"
    "Win n1 = Win m1" "W n1 = W m1" "same_config m1 n1" by blast
  have hd: "ts' ! length ts = test_mse"
  proof -
    have "ts' ! length ts = take (length (ts @ [test_mse])) ts' ! length ts" by simp
    also have "\<dots> = test_mse" unfolding tk by simp
    finally show ?thesis .
  qed
  have r0: "refit_mse L n1 te tt = Inr (ts' ! length ts)"
    using refit_mse_cong[OF n1(2,3) same_config_sym[OF n1(4)], of L te tt] r1 hd by simp
  have tk': "take (length ts) ts' = ts"
  proof -
    have "take (length ts) ts' = take (length ts) (take (length (ts @ [test_mse])) ts')"
      by (simp add: min_def)
    also have "\<dots> = ts" unfolding tk by simp
    finally show ?thesis .
  qed
  have "\<forall>j < length (i # is). \<exists>m1 g1.
      initialize_weights L model (manual_seed L ((i # is) ! j)) = Inr (m1, g1) \<and>
      refit_mse L m1 te tt = Inr (ts' ! (length ts + j))"
  proof (intro allI impI)
    fix j assume j: "j < length (i # is)"
    show "\<exists>m1 g1. initialize_weights L model (manual_seed L ((i # is) ! j)) = Inr (m1, g1) \<and>
        refit_mse L m1 te tt = Inr (ts' ! (length ts + j))"
    proof (cases j)
      case 0
      then show ?thesis using n1(1) r0 by auto
    next
      case (Suc j')
      then have "j' < length is" using j by simp
      from all[rule_format, OF this] show ?thesis using Suc by simp
    qed
  qed
  then show ?case using len tk' by simp
qed

text \<open>
  Claim C4: in every trial the test error is that of a fresh fit on the test data. When
  \<^verbatim>\<open>train_esn\<close> returns, it returns one test error per trial, and the test error of trial
  \<open>i\<close> is the error, against the test targets, of the in-sample predictions of a readout
  fitted on the states along the test input and on the test targets, for the weights that
  \<^verbatim>\<open>initialize_weights\<close> draws under the seed \<open>i\<close>. The training data and the readout fitted on
  it do not occur in this value.
\<close>

theorem train_esn_test_is_refit:
  assumes "train_esn L model g train_data target_data test_data test_target num_trials =
           Inr (model', g', results, test_results)"
  shows "length test_results = num_trials \<and>
         (\<forall>i < num_trials. \<exists>m gi.
            initialize_weights L model (manual_seed L i) = Inr (m, gi) \<and>
            refit_mse L m test_data test_target = Inr (test_results ! i))"
proof -
  have "same_config model model" by (simp add: same_config_def)
  from trials_result[OF this assms[unfolded train_esn_def]]
  show ?thesis by simp
qed

text \<open>
  Two trials of a one-neuron network on two training samples and one test sample, with a
  readout that predicts its first target. The test error recorded is 0, that of the
  readout fitted on the test sample; the readout fitted on the training samples would have
  the error 9 on it.
\<close>

theorem train_esn_test_is_refit_witness:
  "\<exists>model' g' results m0 g0 m1 g1.
     train_esn lib0 net1 0 [Fin 1, Fin 2] [Fin 3, Fin 4] [Fin 5] [Fin 6] 2 =
       Inr (model', g', results, [Fin 0, Fin 0]) \<and>
     length [Fin 0, Fin 0 :: fl] = 2 \<and>
     initialize_weights lib0 net1 (manual_seed lib0 0) = Inr (m0, g0) \<and>
     refit_mse lib0 m0 [Fin 5] [Fin 6] = Inr ([Fin 0, Fin 0] ! 0) \<and>
     reuse_mse lib0 m0 [Fin 1, Fin 2] [Fin 3, Fin 4] [Fin 5] [Fin 6] = Inr (Fin 9) \<and>
     initialize_weights lib0 net1 (manual_seed lib0 1) = Inr (m1, g1) \<and>
     refit_mse lib0 m1 [Fin 5] [Fin 6] = Inr ([Fin 0, Fin 0] ! 1)"
proof -
  have upt: "[0..<2] = [0, Suc 0]" by (simp add: upt_rec)
  have "\<exists>model' g' results.
     train_esn lib0 net1 0 [Fin 1, Fin 2] [Fin 3, Fin 4] [Fin 5] [Fin 6] 2 =
       Inr (model', g', results, [Fin 0, Fin 0])"
    by (simp add: train_esn_def upt trial_def initialize_weights_def adjust_spectral_radius_def
        uniform_pm1_def fin_mat_def train_def train_states_def train_step_def matvec_def
        tadd_def dot_def Ridge_fit_def Ridge_predict_def fsub_def lib0_def net1_def)
  then obtain model' g' results
    where t: "train_esn lib0 net1 0 [Fin 1, Fin 2] [Fin 3, Fin 4] [Fin 5] [Fin 6] 2 =
       Inr (model', g', results, [Fin 0, Fin 0])" by blast
  from train_esn_test_is_refit[OF t]
  have a: "\<forall>i < 2. \<exists>m gi. initialize_weights lib0 net1 (manual_seed lib0 i) = Inr (m, gi) \<and>
            refit_mse lib0 m [Fin 5] [Fin 6] = Inr ([Fin 0, Fin 0] ! i)" by blast
  from a[rule_format, of 0] obtain m0 g0
    where m0: "initialize_weights lib0 net1 (manual_seed lib0 0) = Inr (m0, g0)"
      "refit_mse lib0 m0 [Fin 5] [Fin 6] = Inr ([Fin 0, Fin 0] ! 0)" by auto
  from a[rule_format, of 1] obtain m1 g1
    where m1: "initialize_weights lib0 net1 (manual_seed lib0 1) = Inr (m1, g1)"
      "refit_mse lib0 m1 [Fin 5] [Fin 6] = Inr ([Fin 0, Fin 0] ! 1)" by auto
  have "initialize_weights lib0 net1 (manual_seed lib0 0) = Inr (net1, 4)"
    by (simp add: initialize_weights_def adjust_spectral_radius_def uniform_pm1_def fin_mat_def
        lib0_def net1_def)
  then have "m0 = net1" using m0(1) by simp
  moreover have "reuse_mse lib0 net1 [Fin 1, Fin 2] [Fin 3, Fin 4] [Fin 5] [Fin 6] = Inr (Fin 9)"
    by (simp add: reuse_mse_def train_states_def train_step_def matvec_def tadd_def dot_def
        fsub_def lib0_def net1_def)
  ultimately have r: "reuse_mse lib0 m0 [Fin 1, Fin 2] [Fin 3, Fin 4] [Fin 5] [Fin 6] = Inr (Fin 9)"
    by simp
  have "length [Fin 0, Fin 0 :: fl] = 2" by simp
  with t m0 m1 r show ?thesis by blast
qed


section \<open>Properties of the weight initialization\<close>

text \<open>Scaling a matrix scales its eigenvalues.\<close>

lemma sum_list_scale_row:
  "sum_list (map2 (\<lambda>a x. complex_of_real a * x) (map (\<lambda>w. w * c) r) v) =
   complex_of_real c * sum_list (map2 (\<lambda>a x. complex_of_real a * x) r v)"
proof (induction r arbitrary: v)
  case Nil
  show ?case by simp
next
  case (Cons a r)
  show ?case
  proof (cases v)
    case Nil
    then show ?thesis by simp
  next
    case (Cons x v')
    then show ?thesis using Cons.IH[of v'] by (simp add: algebra_simps)
  qed
qed

lemma cmatvec_scale_mat:
  "cmatvec (scale_mat c A) v = map ((*) (complex_of_real c)) (cmatvec A v)"
  by (simp add: cmatvec_def scale_mat_def sum_list_scale_row)

lemma length_scale_mat: "length (scale_mat c A) = length A"
  by (simp add: scale_mat_def)

lemma is_eigenvalue_scale:
  assumes "is_eigenvalue A z"
  shows "is_eigenvalue (scale_mat c A) (complex_of_real c * z)"
proof -
  from assms obtain v where v: "length v = length A" "\<exists>x \<in> set v. x \<noteq> 0"
    "cmatvec A v = map ((*) z) v" by (auto simp: is_eigenvalue_def)
  have "cmatvec (scale_mat c A) v = map ((*) (complex_of_real c * z)) v"
    by (simp add: cmatvec_scale_mat v(3) mult.assoc)
  then show ?thesis using v(1,2) unfolding is_eigenvalue_def length_scale_mat by blast
qed

lemma scale_mat_inverse: "c \<noteq> 0 \<Longrightarrow> scale_mat (1 / c) (scale_mat c A) = A"
  by (simp add: scale_mat_def map_idI)

lemma is_eigenvalue_unscale:
  assumes "c \<noteq> 0" "is_eigenvalue (scale_mat c A) z"
  shows "is_eigenvalue A (z / complex_of_real c)"
  using is_eigenvalue_scale[OF assms(2), of "1 / c"] assms(1)
  by (simp add: scale_mat_inverse)

lemma is_eigenvalue_scale_zero:
  assumes "is_eigenvalue (scale_mat 0 A) z"
  shows "z = 0"
proof -
  from assms obtain v x where v: "length v = length A" "x \<in> set v" "x \<noteq> 0"
    "cmatvec (scale_mat 0 A) v = map ((*) z) v"
    by (auto simp: is_eigenvalue_def length_scale_mat)
  from v(2) obtain i where i: "i < length v" "v ! i = x" by (auto simp: in_set_conv_nth)
  have "cmatvec (scale_mat 0 A) v ! i = 0"
    using i(1) v(1) by (simp add: cmatvec_scale_mat) (simp add: cmatvec_def)
  moreover have "map ((*) z) v ! i = z * x" using i by simp
  ultimately have "z * x = 0" using v(4) by simp
  then show ?thesis using v(3) by simp
qed

lemma is_spectral_radius_scale:
  assumes "is_spectral_radius A rho"
  shows "is_spectral_radius (scale_mat c A) (\<bar>c\<bar> * rho)"
proof -
  from assms have sq: "\<forall>r \<in> set A. length r = length A"
    and ex: "\<exists>z. is_eigenvalue A z \<and> cmod z = rho"
    and ub: "\<forall>z. is_eigenvalue A z \<longrightarrow> cmod z \<le> rho"
    by (simp_all add: is_spectral_radius_def)
  have sq': "\<forall>r \<in> set (scale_mat c A). length r = length (scale_mat c A)"
    using sq by (auto simp: scale_mat_def)
  from ex obtain z where z: "is_eigenvalue A z" "cmod z = rho" by blast
  have ex': "\<exists>z'. is_eigenvalue (scale_mat c A) z' \<and> cmod z' = \<bar>c\<bar> * rho"
    using is_eigenvalue_scale[OF z(1), of c] z(2) by (auto simp: norm_mult)
  have ub': "\<forall>z'. is_eigenvalue (scale_mat c A) z' \<longrightarrow> cmod z' \<le> \<bar>c\<bar> * rho"
  proof (intro allI impI)
    fix z' assume e: "is_eigenvalue (scale_mat c A) z'"
    show "cmod z' \<le> \<bar>c\<bar> * rho"
    proof (cases "c = 0")
      case True
      then show ?thesis using is_eigenvalue_scale_zero[of A z'] e by simp
    next
      case False
      from ub is_eigenvalue_unscale[OF False e] have "cmod (z' / complex_of_real c) \<le> rho"
        by blast
      then have "cmod z' / \<bar>c\<bar> \<le> rho" by (simp add: norm_divide)
      then show ?thesis using False by (simp add: field_simps)
    qed
  qed
  show ?thesis unfolding is_spectral_radius_def using sq' ex' ub' by blast
qed

lemma is_spectral_radius_nonneg: "is_spectral_radius A rho \<Longrightarrow> 0 \<le> rho"
  by (auto simp: is_spectral_radius_def)

text \<open>A matrix with one entry has that entry as its only eigenvalue.\<close>

lemma is_eigenvalue_single: "is_eigenvalue [[a]] z \<longleftrightarrow> z = complex_of_real a"
proof
  assume "is_eigenvalue [[a]] z"
  then obtain v where v: "length v = 1" "\<exists>x \<in> set v. x \<noteq> 0" "cmatvec [[a]] v = map ((*) z) v"
    by (auto simp: is_eigenvalue_def)
  from v(1) obtain x where x: "v = [x]" by (cases v) auto
  then have "x \<noteq> 0" "complex_of_real a * x = z * x" using v(2,3) by (simp_all add: cmatvec_def)
  then show "z = complex_of_real a" by simp
next
  assume "z = complex_of_real a"
  then have "length [1::complex] = length [[a]] \<and> (\<exists>x \<in> set [1::complex]. x \<noteq> 0) \<and>
      cmatvec [[a]] [1] = map ((*) z) [1]" by (simp add: cmatvec_def)
  then show "is_eigenvalue [[a]] z" unfolding is_eigenvalue_def by blast
qed

lemma is_spectral_radius_single: "is_spectral_radius [[a]] \<bar>a\<bar>"
  by (simp add: is_spectral_radius_def is_eigenvalue_single)

text \<open>What \<^verbatim>\<open>initialize_weights\<close> returns, given the two draws and the eigenvalues.\<close>

lemma initialize_weights_result:
  assumes "torch_rand L g (reservoir_size net) (input_dim net) = (A, g1)"
    and "torch_rand L g1 (reservoir_size net) (reservoir_size net) = (B, g2)"
    and "linalg_eig L (fin_mat (uniform_pm1 B)) = Inr evs"
    and "py_max (map cmod evs) = Inr rho"
  shows "initialize_weights L net g =
         Inr (net\<lparr>Win := fin_mat (uniform_pm1 A),
                  W := map (map (\<lambda>w. fmul w (fdiv (Fin (spectral_radius net)) (Fin rho))))
                         (fin_mat (uniform_pm1 B))\<rparr>, g2)"
  using assms by (simp add: initialize_weights_def adjust_spectral_radius_def)

text \<open>
  The builtin \<^verbatim>\<open>max\<close> returns an element of the sequence that no element exceeds. So the
  value the program computes from the eigenvalues of a square matrix is its spectral
  radius.
\<close>

lemma foldl_max:
  "foldl (\<lambda>m y. if m < y then y else m) (a::real) xs \<in> set (a # xs) \<and>
   (\<forall>x \<in> set (a # xs). x \<le> foldl (\<lambda>m y. if m < y then y else m) a xs)"
proof (induction xs arbitrary: a)
  case Nil
  show ?case by simp
next
  case (Cons y ys)
  let ?a = "if a < y then y else a"
  let ?m = "foldl (\<lambda>m y. if m < y then y else m) ?a ys"
  from Cons.IH[of ?a] have m: "?m \<in> set (?a # ys)" "\<forall>x \<in> set (?a # ys). x \<le> ?m" by blast+
  have "a \<le> ?a" "y \<le> ?a" by simp_all
  moreover have "?a \<le> ?m" using m(2) by simp
  ultimately have "a \<le> ?m" "y \<le> ?m" by linarith+
  moreover have "?m \<in> set (a # y # ys)" using m(1) by (auto split: if_splits)
  moreover have "\<forall>x \<in> set ys. x \<le> ?m" using m(2) by simp
  ultimately show ?case by simp
qed

lemma py_max_greatest:
  assumes "py_max xs = Inr m"
  shows "m \<in> set xs \<and> (\<forall>x \<in> set xs. x \<le> m)"
proof (cases xs)
  case Nil
  then show ?thesis using assms by simp
next
  case (Cons a ys)
  then have "m = foldl (\<lambda>m y. if m < y then y else m) a ys" using assms by simp
  then show ?thesis using foldl_max[of a ys] Cons by simp
qed

lemma computed_spectral_radius:
  assumes "\<forall>r \<in> set A. length r = length A"
    and "set evs = {z. is_eigenvalue A z}"
    and "py_max (map cmod evs) = Inr rho"
  shows "is_spectral_radius A rho"
proof -
  from py_max_greatest[OF assms(3)]
  have mem: "rho \<in> cmod ` set evs" and ub: "\<forall>x \<in> cmod ` set evs. x \<le> rho" by simp_all
  from mem obtain z where "z \<in> set evs" "cmod z = rho" by auto
  then have ex: "\<exists>z. is_eigenvalue A z \<and> cmod z = rho" using assms(2) by auto
  have "\<forall>z. is_eigenvalue A z \<longrightarrow> cmod z \<le> rho" using ub assms(2) by auto
  then show ?thesis unfolding is_spectral_radius_def using assms(1) ex by blast
qed

text \<open>
  Claim C1: after a weight initialization whose fresh draw of \<open>W\<close> has a largest eigenvalue
  magnitude \<open>rho \<noteq> 0\<close>, the recurrent matrix held is the fresh draw multiplied once by
  \<open>spectral_radius / rho\<close>, and its spectral radius is the configured \<open>spectral_radius\<close>
  (a spectral radius: not negative). The eigenvalue routine is taken to return the
  eigenvalues of the square matrix drawn; \<open>rho\<close> is the value the program computes from
  them.
\<close>

theorem initialize_weights_spectral_radius:
  assumes "torch_rand L g (reservoir_size net) (input_dim net) = (A, g1)"
    and "torch_rand L g1 (reservoir_size net) (reservoir_size net) = (B, g2)"
    and "\<forall>r \<in> set B. length r = length B"
    and "linalg_eig L (fin_mat (uniform_pm1 B)) = Inr evs"
    and "set evs = {z. is_eigenvalue (uniform_pm1 B) z}"
    and "py_max (map cmod evs) = Inr rho" "rho \<noteq> 0"
    and "0 \<le> spectral_radius net"
  shows "\<exists>net'. initialize_weights L net g = Inr (net', g2) \<and>
           W net' = fin_mat (scale_mat (spectral_radius net / rho) (uniform_pm1 B)) \<and>
           is_spectral_radius (uniform_pm1 B) rho \<and>
           mat_spectral_radius (W net') (spectral_radius net)"
proof -
  let ?c = "spectral_radius net / rho"
  have sq: "\<forall>r \<in> set (uniform_pm1 B). length r = length (uniform_pm1 B)"
    using assms(3) by (auto simp: uniform_pm1_def)
  have rho: "is_spectral_radius (uniform_pm1 B) rho"
    by (rule computed_spectral_radius[OF sq assms(5,6)])
  have pos: "0 < rho" using is_spectral_radius_nonneg[OF rho] assms(7) by simp
  have "map (map (\<lambda>w. fmul w (fdiv (Fin (spectral_radius net)) (Fin rho))))
          (fin_mat (uniform_pm1 B)) = fin_mat (scale_mat ?c (uniform_pm1 B))"
    using assms(7) by (simp add: fin_mat_def scale_mat_def)
  then have init: "initialize_weights L net g =
      Inr (net\<lparr>Win := fin_mat (uniform_pm1 A), W := fin_mat (scale_mat ?c (uniform_pm1 B))\<rparr>, g2)"
    using initialize_weights_result[OF assms(1,2,4,6)] by simp
  have "\<bar>?c\<bar> * rho = spectral_radius net" using pos assms(8) by simp
  then have "is_spectral_radius (scale_mat ?c (uniform_pm1 B)) (spectral_radius net)"
    using is_spectral_radius_scale[OF rho, of ?c] by simp
  then have "mat_spectral_radius (fin_mat (scale_mat ?c (uniform_pm1 B))) (spectral_radius net)"
    unfolding mat_spectral_radius_def by blast
  then show ?thesis using init rho by auto
qed

text \<open>
  The draw \<open>0.75\<close> gives the matrix \<open>[[0.5]]\<close>, whose only eigenvalue is \<open>0.5\<close>; rescaled
  for the default \<open>0.9\<close> it is \<open>[[0.9]]\<close>, with the spectral radius \<open>0.9\<close>.
\<close>

theorem initialize_weights_spectral_radius_witness:
  "torch_rand lib0 2 (reservoir_size net1) (input_dim net1) = ([[3 / 4]], 3) \<and>
   torch_rand lib0 3 (reservoir_size net1) (reservoir_size net1) = ([[3 / 4]], 4) \<and>
   linalg_eig lib0 (fin_mat (uniform_pm1 [[3 / 4]])) = Inr [complex_of_real (1 / 2)] \<and>
   set [complex_of_real (1 / 2)] = {z. is_eigenvalue (uniform_pm1 [[3 / 4]]) z} \<and>
   py_max (map cmod [complex_of_real (1 / 2)]) = Inr (1 / 2) \<and> (1 / 2 :: real) \<noteq> 0 \<and>
   0 \<le> spectral_radius net1 \<and>
   (\<exists>net'. initialize_weights lib0 net1 2 = Inr (net', 4) \<and> W net' = [[Fin (9 / 10)]] \<and>
      mat_spectral_radius (W net') (9 / 10))"
proof -
  have d1: "torch_rand lib0 2 (reservoir_size net1) (input_dim net1) = ([[3 / 4]], 3)"
    by (simp add: lib0_def net1_def)
  have d2: "torch_rand lib0 3 (reservoir_size net1) (reservoir_size net1) = ([[3 / 4]], 4)"
    by (simp add: lib0_def net1_def)
  have sq: "\<forall>r \<in> set [[3 / 4 :: real]]. length r = length [[3 / 4 :: real]]" by simp
  have u: "uniform_pm1 [[3 / 4]] = [[1 / 2]]" by (simp add: uniform_pm1_def)
  have e: "linalg_eig lib0 (fin_mat (uniform_pm1 [[3 / 4]])) = Inr [complex_of_real (1 / 2)]"
    by (simp add: u fin_mat_def lib0_def)
  have ev: "set [complex_of_real (1 / 2)] = {z. is_eigenvalue (uniform_pm1 [[3 / 4]]) z}"
    unfolding u by (auto simp: is_eigenvalue_single)
  have m: "py_max (map cmod [complex_of_real (1 / 2)]) = Inr (1 / 2)" by simp
  have n: "(1 / 2 :: real) \<noteq> 0" by simp
  have p: "0 \<le> spectral_radius net1" by (simp add: net1_def)
  from initialize_weights_spectral_radius[OF d1 d2 sq e ev m n p]
  obtain net' where "initialize_weights lib0 net1 2 = Inr (net', 4)"
    "W net' = fin_mat (scale_mat (spectral_radius net1 / (1 / 2)) (uniform_pm1 [[3 / 4]]))"
    "mat_spectral_radius (W net') (spectral_radius net1)" by blast
  moreover have "fin_mat (scale_mat (spectral_radius net1 / (1 / 2)) (uniform_pm1 [[3 / 4]])) =
      [[Fin (9 / 10)]]"
    by (simp add: u scale_mat_def fin_mat_def net1_def)
  moreover have "spectral_radius net1 = 9 / 10" by (simp add: net1_def)
  ultimately have "\<exists>net'. initialize_weights lib0 net1 2 = Inr (net', 4) \<and>
      W net' = [[Fin (9 / 10)]] \<and> mat_spectral_radius (W net') (9 / 10)"
    by auto
  then show ?thesis using d1 d2 e ev m n p by blast
qed

lemma initialize_weights_failure:
  assumes "torch_rand L g (reservoir_size net) (input_dim net) = (A, g1)"
    and "torch_rand L g1 (reservoir_size net) (reservoir_size net) = (B, g2)"
  shows "initialize_weights L net g = Inl e \<longleftrightarrow>
         linalg_eig L (fin_mat (uniform_pm1 B)) = Inl e \<or>
         (linalg_eig L (fin_mat (uniform_pm1 B)) = Inr [] \<and> e = ValueError)"
proof (cases "linalg_eig L (fin_mat (uniform_pm1 B))")
  case (Inl e')
  then show ?thesis using assms by (simp add: initialize_weights_def adjust_spectral_radius_def)
next
  case (Inr evs)
  then show ?thesis
    using assms by (cases evs) (auto simp: initialize_weights_def adjust_spectral_radius_def)
qed

text \<open>
  Claim C3, as amended: weight initialization has no check for a degenerate draw and no
  error of its own. It fails exactly when the eigenvalue routine fails or returns no
  eigenvalue at all (then \<^verbatim>\<open>max\<close> raises a ValueError). When the largest eigenvalue magnitude
  of the fresh draw is zero, the division is carried out (a float division: its result is
  an infinity, or NaN for a zero \<open>spectral_radius\<close>), the call returns normally, and every
  entry of the recurrent matrix it leaves is an infinity or NaN.
\<close>

theorem initialize_weights_zero_radius:
  assumes "torch_rand L g (reservoir_size net) (input_dim net) = (A, g1)"
    and "torch_rand L g1 (reservoir_size net) (reservoir_size net) = (B, g2)"
  shows "(\<forall>e. initialize_weights L net g = Inl e \<longleftrightarrow>
            linalg_eig L (fin_mat (uniform_pm1 B)) = Inl e \<or>
            (linalg_eig L (fin_mat (uniform_pm1 B)) = Inr [] \<and> e = ValueError)) \<and>
         (\<forall>evs. linalg_eig L (fin_mat (uniform_pm1 B)) = Inr evs \<and>
                py_max (map cmod evs) = Inr 0 \<longrightarrow>
            (\<exists>net'. initialize_weights L net g = Inr (net', g2) \<and>
               W net' = map (map (\<lambda>w. fmul (Fin w) (inf_of (spectral_radius net))))
                          (uniform_pm1 B) \<and>
               (\<forall>r \<in> set (W net'). \<forall>c \<in> set r. \<not> is_fin c)))"
proof (intro conjI allI impI)
  fix e
  show "initialize_weights L net g = Inl e \<longleftrightarrow>
        linalg_eig L (fin_mat (uniform_pm1 B)) = Inl e \<or>
        (linalg_eig L (fin_mat (uniform_pm1 B)) = Inr [] \<and> e = ValueError)"
    by (rule initialize_weights_failure[OF assms])
next
  fix evs
  assume h: "linalg_eig L (fin_mat (uniform_pm1 B)) = Inr evs \<and> py_max (map cmod evs) = Inr 0"
  have nf: "\<not> is_fin (fmul (Fin w) (inf_of s))" for w s
    by (simp add: inf_of_def)
  have "map (map (\<lambda>w. fmul w (fdiv (Fin (spectral_radius net)) (Fin 0))))
          (fin_mat (uniform_pm1 B)) =
        map (map (\<lambda>w. fmul (Fin w) (inf_of (spectral_radius net)))) (uniform_pm1 B)"
    by (simp add: fin_mat_def comp_def)
  then have init: "initialize_weights L net g =
      Inr (net\<lparr>Win := fin_mat (uniform_pm1 A),
               W := map (map (\<lambda>w. fmul (Fin w) (inf_of (spectral_radius net)))) (uniform_pm1 B)\<rparr>, g2)"
    using initialize_weights_result[OF assms, of evs 0] h by simp
  show "\<exists>net'. initialize_weights L net g = Inr (net', g2) \<and>
      W net' = map (map (\<lambda>w. fmul (Fin w) (inf_of (spectral_radius net)))) (uniform_pm1 B) \<and>
      (\<forall>r \<in> set (W net'). \<forall>c \<in> set r. \<not> is_fin c)"
    using init nf by auto
qed

text \<open>
  The draw \<open>0.5\<close> gives the zero matrix \<open>[[0]]\<close>, whose only eigenvalue is zero. The
  initialization raises nothing: it returns with \<open>W = [[nan]]\<close> (\<open>0.9 / 0 = inf\<close>,
  \<open>0 * inf = nan\<close>).
\<close>

theorem initialize_weights_zero_radius_witness:
  "torch_rand lib0 0 (reservoir_size net1) (input_dim net1) = ([[3 / 4]], 1) \<and>
   torch_rand lib0 1 (reservoir_size net1) (reservoir_size net1) = ([[1 / 2]], 2) \<and>
   linalg_eig lib0 (fin_mat (uniform_pm1 [[1 / 2]])) = Inr [0] \<and>
   py_max (map cmod [0]) = Inr 0 \<and>
   (\<exists>net'. initialize_weights lib0 net1 0 = Inr (net', 2) \<and> W net' = [[NaN]])"
proof -
  have d1: "torch_rand lib0 0 (reservoir_size net1) (input_dim net1) = ([[3 / 4]], 1)"
    by (simp add: lib0_def net1_def)
  have d2: "torch_rand lib0 1 (reservoir_size net1) (reservoir_size net1) = ([[1 / 2]], 2)"
    by (simp add: lib0_def net1_def)
  have u: "uniform_pm1 [[1 / 2]] = [[0]]" by (simp add: uniform_pm1_def)
  have e: "linalg_eig lib0 (fin_mat (uniform_pm1 [[1 / 2]])) = Inr [0]"
    by (simp add: u fin_mat_def lib0_def)
  have m: "py_max (map cmod [0]) = Inr 0" by simp
  from initialize_weights_zero_radius[OF d1 d2] e m
  obtain net' where "initialize_weights lib0 net1 0 = Inr (net', 2)"
    "W net' = map (map (\<lambda>w. fmul (Fin w) (inf_of (spectral_radius net1)))) (uniform_pm1 [[1 / 2]])"
    by blast
  moreover have "map (map (\<lambda>w. fmul (Fin w) (inf_of (spectral_radius net1))))
      (uniform_pm1 [[1 / 2]]) = [[NaN]]"
    by (simp add: u inf_of_def net1_def)
  ultimately have "\<exists>net'. initialize_weights lib0 net1 0 = Inr (net', 2) \<and> W net' = [[NaN]]"
    by auto
  then show ?thesis using d1 d2 e m by blast
qed

text \<open>
  The claim as stated fails on this draw: the spectral radius of the fresh \<open>W = [[0]]\<close> is
  zero, and the initialization returns a network instead of an error.
\<close>

theorem initialize_weights_no_degenerate_error_counterexample:
  "is_spectral_radius [[0]] 0 \<and>
   torch_rand lib0 1 (reservoir_size net1) (reservoir_size net1) = ([[1 / 2]], 2) \<and>
   uniform_pm1 [[1 / 2]] = [[0]] \<and>
   initialize_weights lib0 net1 0 = Inr (net1\<lparr>Win := [[Fin (1 / 2)]], W := [[NaN]]\<rparr>, 2)"
proof -
  have a: "is_spectral_radius [[0]] 0" using is_spectral_radius_single[of 0] by simp
  have b: "torch_rand lib0 1 (reservoir_size net1) (reservoir_size net1) = ([[1 / 2]], 2)"
    by (simp add: lib0_def net1_def)
  have c: "uniform_pm1 [[1 / 2]] = [[0]]" by (simp add: uniform_pm1_def)
  have d: "initialize_weights lib0 net1 0 = Inr (net1\<lparr>Win := [[Fin (1 / 2)]], W := [[NaN]]\<rparr>, 2)"
    by (simp add: initialize_weights_def adjust_spectral_radius_def uniform_pm1_def fin_mat_def
        lib0_def net1_def inf_of_def)
  show ?thesis using a b c d by blast
qed


section \<open>Properties of the readout\<close>

lemma train_failure:
  assumes "train_states net xs = Inr S"
  shows "train L net xs ys = Inl e \<longleftrightarrow>
         ridge_fit L (ridge_alpha (readout net)) S ys = Inl e \<or>
         (\<exists>p. ridge_fit L (ridge_alpha (readout net)) S ys = Inr p \<and> ridge_predict L p S = Inl e)"
  using assms
  by (auto simp: train_def Ridge_fit_def Ridge_predict_def split: sum.splits)

text \<open>
  Claim C8, as amended: the program has no dimension check and no error of its own for the
  readout. For a network of the shapes of the data model, \<^verbatim>\<open>train\<close> hands the library the
  whole trajectory (one state per input element, each of width \<open>reservoir_size\<close>) and the
  targets as they are, nothing truncated or broadcast, and it fails exactly when the
  library's fit on these, or its predict on the trajectory, fails, with the library's
  error. The readout is given its regularisation strength, the states and the targets only:
  its outcome cannot depend on \<open>reservoir_size\<close>.
\<close>

theorem train_hands_trajectory_to_readout:
  assumes "well_shaped net"
  shows "\<exists>S. train_states net xs = Inr S \<and> length S = length xs \<and>
           (\<forall>s \<in> set S. length s = reservoir_size net) \<and>
           (\<forall>e. train L net xs ys = Inl e \<longleftrightarrow>
              ridge_fit L (ridge_alpha (readout net)) S ys = Inl e \<or>
              (\<exists>p. ridge_fit L (ridge_alpha (readout net)) S ys = Inr p \<and>
                   ridge_predict L p S = Inl e))"
proof -
  let ?S = "map (\<lambda>t. unrolled (Win net) (W net) (reservoir_size net) xs (Suc t)) [0..<length xs]"
  have S: "train_states net xs = Inr ?S" by (rule train_states_explicit[OF assms])
  have len: "length ?S = length xs" by simp
  have "length (Win net) = reservoir_size net" "length (W net) = reservoir_size net"
    using assms by (simp_all add: well_shaped_def)
  then have wd: "\<forall>s \<in> set ?S. length s = reservoir_size net"
    by (auto simp: length_unrolled simp del: unrolled.simps)
  show ?thesis using S len wd train_failure[OF S] by blast
qed

text \<open>
  Two inputs for two targets pass; two inputs for one target fail in the library, with the
  library's error.
\<close>

theorem train_hands_trajectory_to_readout_witness:
  "well_shaped net2 \<and>
   (\<exists>S. train_states net2 [Fin 1, Fin 2] = Inr S \<and> length S = 2 \<and>
      length (S ! 0) = reservoir_size net2 \<and> length (S ! 1) = reservoir_size net2 \<and>
      ridge_fit lib0 (ridge_alpha (readout net2)) S [Fin 3] = Inl ValueError \<and>
      train lib0 net2 [Fin 1, Fin 2] [Fin 3] = Inl ValueError)"
proof -
  have ws: "well_shaped net2" by (simp add: well_shaped_def net2_def)
  from train_hands_trajectory_to_readout[OF ws, of "[Fin 1, Fin 2]" lib0 "[Fin 3]"]
  obtain S where S: "train_states net2 [Fin 1, Fin 2] = Inr S" "length S = 2"
    "\<forall>s \<in> set S. length s = reservoir_size net2"
    "\<forall>e. train lib0 net2 [Fin 1, Fin 2] [Fin 3] = Inl e \<longleftrightarrow>
        ridge_fit lib0 (ridge_alpha (readout net2)) S [Fin 3] = Inl e \<or>
        (\<exists>p. ridge_fit lib0 (ridge_alpha (readout net2)) S [Fin 3] = Inr p \<and>
             ridge_predict lib0 p S = Inl e)"
    by auto
  have w: "length (S ! 0) = reservoir_size net2" "length (S ! 1) = reservoir_size net2"
    using S(2,3) by simp_all
  have f: "ridge_fit lib0 (ridge_alpha (readout net2)) S [Fin 3] = Inl ValueError"
    using S(2) by (auto simp: lib0_def)
  then have "train lib0 net2 [Fin 1, Fin 2] [Fin 3] = Inl ValueError"
    using S(4) by blast
  then show ?thesis using ws S(1,2) w f by blast
qed

text \<open>
  The claim as stated fails, whatever the library does. A trajectory of one state of width
  one, with one target, matches the dimensions of the one-neuron network and not those of
  the two-neuron network; the two readouts are the same object (a \<^verbatim>\<open>Ridge\<close> with the same
  \<open>alpha\<close>), so the same call cannot succeed for the first and fail for the second.
\<close>

theorem readout_dimension_contract_counterexample:
  "\<forall>L :: ('g, fl) lib.
     \<not> (dimension_contract L net1 [[Fin 0]] [Fin 0] \<and> dimension_contract L net2 [[Fin 0]] [Fin 0])"
  by (auto simp: dimension_contract_def net1_def net2_def)


section \<open>Properties of the Mackey-Glass generator\<close>

text \<open>
  With a delay of at least one, every step reads only elements written before it, so the
  loop never fails and establishes the invariant up to the length of the array.
\<close>

lemma mg_loop_inv:
  assumes "1 \<le> tau" "1 \<le> k" "k \<le> N" "mg_inv tau n beta gamma N k x"
  shows "\<exists>x'. mg_loop tau n beta gamma [k..<N] x = Inr x' \<and> mg_inv tau n beta gamma N N x'"
  using assms(2-)
proof (induction "N - k" arbitrary: k x)
  case 0
  then show ?case by simp
next
  case (Suc d)
  then have kN: "k < N" by simp
  have len: "length x = N" using Suc.prems by (simp add: mg_inv_def)
  define v where "v = (if 0 \<le> int k - tau
       then mg_next n beta gamma (x ! (k - 1)) (x ! nat (int k - tau)) else x ! (k - 1))"
  have step: "mg_loop tau n beta gamma [k..<N] x = mg_loop tau n beta gamma [Suc k..<N] (x[k := v])"
  proof -
    have "0 \<le> int k - tau \<Longrightarrow> nat (int k - tau) < length x"
      using kN len assms(1) by linarith
    then show ?thesis using kN by (simp add: upt_conv_Cons v_def)
  qed
  have inv': "mg_inv tau n beta gamma N (Suc k) (x[k := v])"
    unfolding mg_inv_def
  proof (intro conjI allI impI)
    show "length (x[k := v]) = N" using len by simp
    show "x[k := v] ! 0 = Fin (12 / 10)" using Suc.prems by (simp add: mg_inv_def)
  next
    fix t assume t: "1 \<le> t \<and> t < Suc k \<and> int t < tau"
    show "x[k := v] ! t = x[k := v] ! (t - 1)"
    proof (cases "t = k")
      case True
      have "k \<noteq> k - 1" using t True by linarith
      then show ?thesis using True t kN len by (simp add: v_def)
    next
      case False
      then have tk: "t < k" using t by simp
      then have "k \<noteq> t" "k \<noteq> t - 1" by linarith+
      then show ?thesis using t tk Suc.prems(3) by (simp add: mg_inv_def)
    qed
  next
    fix t assume t: "tau \<le> int t \<and> t < Suc k"
    have t1: "1 \<le> t" using t assms(1) by linarith
    have d: "nat (int t - tau) < t" using t assms(1) by linarith
    show "x[k := v] ! t = mg_next n beta gamma (x[k := v] ! (t - 1)) (x[k := v] ! nat (int t - tau))"
    proof (cases "t = k")
      case True
      have "k \<noteq> k - 1" "k \<noteq> nat (int k - tau)" using t1 d True by linarith+
      then show ?thesis using True t kN len by (simp add: v_def)
    next
      case False
      then have tk: "t < k" using t by simp
      then have "k \<noteq> t" "k \<noteq> t - 1" "k \<noteq> nat (int t - tau)" using d by linarith+
      then show ?thesis using t tk Suc.prems(3) by (simp add: mg_inv_def)
    qed
  qed
  have "N - Suc k = d" using Suc.hyps(2) by simp
  from Suc.hyps(1)[OF this[symmetric] _ _ inv'] kN
  show ?case using step by simp
qed

text \<open>
  Claim C6, as amended: for every length \<open>T \<ge> 1\<close>, every delay \<open>tau \<ge> 1\<close> and all other
  parameters the generator returns a sequence of length \<open>T\<close> with \<open>x[0] = 1.2\<close>,
  \<open>x[t] = x[t-1]\<close> for \<open>1 \<le> t < tau\<close>, and
  \<open>x[t] = x[t-1] + beta * x[t-tau] / (1 + x[t-tau]^n) - gamma * x[t-1]\<close> for \<open>tau \<le> t < T\<close>.
\<close>

theorem mackey_glass_recurrence:
  assumes "1 \<le> T" "1 \<le> tau"
  shows "\<exists>x. mackey_glass T tau n beta gamma = Inr x \<and> length x = nat T \<and>
           x ! 0 = Fin (12 / 10) \<and>
           (\<forall>t. 1 \<le> t \<and> t < nat T \<and> int t < tau \<longrightarrow> x ! t = x ! (t - 1)) \<and>
           (\<forall>t. tau \<le> int t \<and> t < nat T \<longrightarrow>
              x ! t = mg_next n beta gamma (x ! (t - 1)) (x ! nat (int t - tau)))"
proof -
  let ?x0 = "(replicate (nat T) (Fin 0))[0 := Fin (12 / 10)]"
  have inv0: "mg_inv tau n beta gamma (nat T) 1 ?x0"
    using assms by (auto simp: mg_inv_def)
  have "1 \<le> nat T" using assms(1) by simp
  from mg_loop_inv[OF assms(2) _ this inv0]
  obtain x' where x': "mg_loop tau n beta gamma [1..<nat T] ?x0 = Inr x'"
    "mg_inv tau n beta gamma (nat T) (nat T) x'" by auto
  have "mackey_glass T tau n beta gamma = Inr x'"
    using assms(1) x'(1) by (simp add: mackey_glass_def)
  then show ?thesis using x'(2) unfolding mg_inv_def by blast
qed

text \<open>The theorem at \<open>T = 3\<close> and \<open>tau = 2\<close>, with the other parameters at their defaults.\<close>

theorem mackey_glass_recurrence_witness:
  "(1::int) \<le> 3 \<and> (1::int) \<le> 2 \<and>
   (\<exists>x. mackey_glass 3 2 10 (Fin (2 / 10)) (Fin (1 / 10)) = Inr x \<and> length x = 3 \<and>
      x ! 0 = Fin (12 / 10) \<and> x ! 1 = x ! 0 \<and>
      x ! 2 = mg_next 10 (Fin (2 / 10)) (Fin (1 / 10)) (x ! 1) (x ! 0))"
proof -
  from mackey_glass_recurrence[of 3 2 10 "Fin (2 / 10)" "Fin (1 / 10)"]
  obtain x where x: "mackey_glass 3 2 10 (Fin (2 / 10)) (Fin (1 / 10)) = Inr x" "length x = nat 3"
    "x ! 0 = Fin (12 / 10)"
    "\<forall>t. 1 \<le> t \<and> t < nat 3 \<and> int t < 2 \<longrightarrow> x ! t = x ! (t - 1)"
    "\<forall>t. 2 \<le> int t \<and> t < nat 3 \<longrightarrow>
        x ! t = mg_next 10 (Fin (2 / 10)) (Fin (1 / 10)) (x ! (t - 1)) (x ! nat (int t - 2))"
    by auto
  have a: "x ! 1 = x ! 0" using x(4)[rule_format, of 1] by simp
  have b: "x ! 2 = mg_next 10 (Fin (2 / 10)) (Fin (1 / 10)) (x ! 1) (x ! 0)"
    using x(5)[rule_format, of 2] by simp
  show ?thesis using x(1,2,3) a b by auto
qed

text \<open>
  Without the bound on the delay the claim fails: with \<open>tau = 0\<close> the step for \<open>t = 1\<close> reads
  \<open>x[1]\<close> while it still holds the initial zero, so \<open>mackey_glass(2, tau=0)\<close> is
  \<open>[1.2, 1.08]\<close>, which does not satisfy the recurrence at \<open>t = 1\<close>.
\<close>

theorem mackey_glass_zero_delay_counterexample:
  "mackey_glass 2 0 10 (Fin (2 / 10)) (Fin (1 / 10)) = Inr [Fin (12 / 10), Fin (108 / 100)] \<and>
   [Fin (12 / 10), Fin (108 / 100)] ! 1 \<noteq>
     mg_next 10 (Fin (2 / 10)) (Fin (1 / 10))
       ([Fin (12 / 10), Fin (108 / 100)] ! (1 - 1)) ([Fin (12 / 10), Fin (108 / 100)] ! nat (int 1 - 0))"
  by (simp add: mackey_glass_def mg_next_def fsub_def fpow_def eval_nat_numeral)

text \<open>
  Claim C10: for the length 0 the generator fails with an IndexError (the assignment of the
  first element), so a sequence is returned only for \<open>T \<ge> 1\<close>.
\<close>

theorem mackey_glass_positive_length:
  "mackey_glass 0 tau n beta gamma = Inl IndexError \<and>
   (\<forall>x. mackey_glass T tau n beta gamma = Inr x \<longrightarrow> 1 \<le> T)"
proof (intro conjI allI impI)
  show "mackey_glass 0 tau n beta gamma = Inl IndexError" by (simp add: mackey_glass_def)
next
  fix x assume "mackey_glass T tau n beta gamma = Inr x"
  then show "1 \<le> T" by (simp add: mackey_glass_def split: if_splits)
qed

theorem mackey_glass_positive_length_witness:
  "mackey_glass 0 17 10 (Fin (2 / 10)) (Fin (1 / 10)) = Inl IndexError \<and>
   mackey_glass 1 17 10 (Fin (2 / 10)) (Fin (1 / 10)) = Inr [Fin (12 / 10)] \<and> (1::int) \<le> 1"
  using mackey_glass_positive_length[of 17 10 "Fin (2 / 10)" "Fin (1 / 10)" 1]
  by (simp add: mackey_glass_def)

end
